theory Spec2Isabelle
  imports Main "HOL-Library.Word" "HOL-Library.Sublist"
begin

section \<open>Errors\<close>

text \<open>
  Every \<^verbatim>\<open>throw\<close> site of the modelled sources is one constructor; an error that a
  \<^verbatim>\<open>catch\<close> block wraps into a new \<^verbatim>\<open>Error\<close> keeps its cause as an argument.
  \<open>errno\<close> are the codes a failing filesystem call of Node carries in \<^verbatim>\<open>error.code\<close>.
\<close>

datatype errno =
    ENOENT
  | ENOTDIR
  | EISDIR
  | EEXIST
  | ENAMETOOLONG
  | EBUSY
  | EACCES
  | EPERM
  | EROFS
  | ENOSPC
  | EIO
  | ELOOP

datatype error =
    QueueCapacityTooSmall
  | QueueCapacityExceeded nat int
  | FilenameNotNonEmptyString
  | FilenameEmptyAfterSanitization
  | PathTraversalDetected
  | ValidationError string
  | SystemError errno
  | SyntaxError
  | TypeError
  | FileIsEmpty
  | InvalidStructure
  | FailedToUpdateConfig error
  | FailedToRead error
  | FailedToSave error

section \<open>The bounded queue (queues/queue.ts)\<close>

text \<open>
  \<^verbatim>\<open>class Queue<T>\<close> has a private array \<^verbatim>\<open>storage\<close> and a public, mutable
  \<^verbatim>\<open>capacity: number\<close>. The capacity is modelled as an integer (its callers pass it
  through \<^verbatim>\<open>validateCapacity\<close>, which accepts integers only); it may still be zero or
  negative, because the field is assignable after construction.
\<close>

record 'a Queue =
  storage :: "'a list"
  capacity :: int

definition new_Queue :: "int \<Rightarrow> error + 'a Queue" where
  "new_Queue c = (if c < 1 then Inl QueueCapacityTooSmall
                  else Inr \<lparr>storage = [], capacity = c\<rparr>)"

text \<open>The constructor's parameter defaults to 5.\<close>

definition new_Queue_default :: "error + 'a Queue" where
  "new_Queue_default = new_Queue 5"

definition size_q :: "'a Queue \<Rightarrow> nat" where
  "size_q q = length (storage q)"

text \<open>\<^verbatim>\<open>Array.prototype.shift\<close>: removes and returns the first element, \<^verbatim>\<open>undefined\<close>
  (here \<open>None\<close>) on an empty array, which it leaves empty.\<close>

definition dequeue :: "'a Queue \<Rightarrow> 'a option \<times> 'a Queue" where
  "dequeue q = (case storage q of
                  [] \<Rightarrow> (None, q)
                | x # xs \<Rightarrow> (Some x, q\<lparr>storage := xs\<rparr>))"

text \<open>\<^verbatim>\<open>Array.prototype.pop\<close>: removes and returns the last element.\<close>

definition removeLast :: "'a Queue \<Rightarrow> 'a option \<times> 'a Queue" where
  "removeLast q = (if storage q = [] then (None, q)
                   else (Some (last (storage q)), q\<lparr>storage := butlast (storage q)\<rparr>))"

text \<open>
  The eviction loop of \<^verbatim>\<open>enqueue\<close>, \<^verbatim>\<open>while (this.size() >= this.capacity) this.dequeue()\<close>.
  It need not terminate, so it is a partial function: \<open>None\<close> is "never returns".
\<close>

partial_function (option) evict :: "'a Queue \<Rightarrow> 'a Queue option" where
  "evict q = (if capacity q \<le> int (size_q q) then evict (snd (dequeue q)) else Some q)"

definition enqueue :: "'a Queue \<Rightarrow> 'a \<Rightarrow> 'a Queue option" where
  "enqueue q item = (case evict q of
                       None \<Rightarrow> None
                     | Some q' \<Rightarrow> Some (q'\<lparr>storage := storage q' @ [item]\<rparr>))"

text \<open>The same loop with a budget of iterations: \<open>evict_within n q\<close> is \<open>None\<close> when
  the loop needs more than \<open>n\<close> calls of \<^verbatim>\<open>dequeue\<close>.\<close>

fun evict_within :: "nat \<Rightarrow> 'a Queue \<Rightarrow> 'a Queue option" where
  "evict_within n q =
     (if capacity q \<le> int (size_q q)
      then (case n of 0 \<Rightarrow> None | Suc m \<Rightarrow> evict_within m (snd (dequeue q)))
      else Some q)"

text \<open>A sequence of \<^verbatim>\<open>enqueue\<close> calls, one per element of the list, in order.\<close>

fun enqueue_all :: "'a Queue \<Rightarrow> 'a list \<Rightarrow> 'a Queue option" where
  "enqueue_all q [] = Some q"
| "enqueue_all q (x # xs) = (case enqueue q x of
                               None \<Rightarrow> None
                             | Some q' \<Rightarrow> enqueue_all q' xs)"

text \<open>The rollback sequence of the message handler: \<^verbatim>\<open>enqueue(x); removeLast()\<close>.\<close>

definition enqueue_then_removeLast :: "'a Queue \<Rightarrow> 'a \<Rightarrow> 'a Queue option" where
  "enqueue_then_removeLast q x = (case enqueue q x of
                                    None \<Rightarrow> None
                                  | Some q' \<Rightarrow> Some (snd (removeLast q')))"

definition getItems :: "'a Queue \<Rightarrow> 'a list" where
  "getItems q = storage q"

text \<open>\<^verbatim>\<open>setQueue\<close> returns the state after the call together with its outcome, so that
  what an exception leaves behind is part of the model.\<close>

definition setQueue :: "'a Queue \<Rightarrow> 'a list \<Rightarrow> (error + unit) \<times> 'a Queue" where
  "setQueue q newQueue =
     (if capacity q < int (length newQueue)
      then (Inl (QueueCapacityExceeded (length newQueue) (capacity q)), q)
      else (Inr (), q\<lparr>storage := newQueue\<rparr>))"

definition clear :: "'a Queue \<Rightarrow> 'a Queue" where
  "clear q = q\<lparr>storage := []\<rparr>"

definition isEmpty :: "'a Queue \<Rightarrow> bool" where
  "isEmpty q = (length (storage q) = 0)"

definition isFull :: "'a Queue \<Rightarrow> bool" where
  "isFull q = (capacity q \<le> int (length (storage q)))"

section \<open>Strings\<close>

text \<open>
  A JavaScript string is a sequence of UTF-16 code units; \<^verbatim>\<open>length\<close>, \<^verbatim>\<open>slice\<close> and
  the character classes of the regular expressions below all work on code units.
  \<open>js\<close> embeds an ASCII literal.
\<close>

type_synonym jschar = "16 word"
type_synonym jsstring = "jschar list"

definition js :: "string \<Rightarrow> jsstring" where
  "js s = map of_char s"

section \<open>Path safety (utils/pathSafety.ts)\<close>

abbreviation slash :: jschar where "slash \<equiv> 0x2F"
abbreviation backslash :: jschar where "backslash \<equiv> 0x5C"
abbreviation underscore :: jschar where "underscore \<equiv> 0x5F"
abbreviation dot :: jschar where "dot \<equiv> 0x2E"

text \<open>
  The chain of replacements at the head of \<^verbatim>\<open>sanitizeFilename\<close>, in the order of the
  source: delete NUL (\<^verbatim>\<open>/\x00/g\<close>), turn both path separators into an underscore
  (\<^verbatim>\<open>/[\/\\]/g\<close>), turn the control characters \<^verbatim>\<open>[\x00-\x1f\x7f-\x9f]\<close> into an
  underscore, and replace one leading run of dots (\<^verbatim>\<open>/^\.+/\<close>, no \<^verbatim>\<open>g\<close> flag) by a
  single underscore.
\<close>

definition remove_nul :: "jsstring \<Rightarrow> jsstring" where
  "remove_nul s = filter (\<lambda>c. c \<noteq> 0) s"

definition replace_separators :: "jsstring \<Rightarrow> jsstring" where
  "replace_separators s = map (\<lambda>c. if c = slash \<or> c = backslash then underscore else c) s"

definition is_control :: "jschar \<Rightarrow> bool" where
  "is_control c = (c \<le> 0x1F \<or> (0x7F \<le> c \<and> c \<le> 0x9F))"

definition replace_control :: "jsstring \<Rightarrow> jsstring" where
  "replace_control s = map (\<lambda>c. if is_control c then underscore else c) s"

definition replace_leading_dots :: "jsstring \<Rightarrow> jsstring" where
  "replace_leading_dots s =
     (case s of
        [] \<Rightarrow> []
      | c # cs \<Rightarrow> if c = dot then underscore # dropWhile (\<lambda>d. d = dot) cs else s)"

definition replace_chain :: "jsstring \<Rightarrow> jsstring" where
  "replace_chain input =
     replace_leading_dots (replace_control (replace_separators (remove_nul input)))"

definition sanitizeFilename :: "jsstring \<Rightarrow> error + jsstring" where
  "sanitizeFilename input =
     (if input = [] then Inl FilenameNotNonEmptyString
      else let sanitized = replace_chain input;
               sanitized = (if 255 < length sanitized then take 255 sanitized else sanitized)
           in if length sanitized = 0 then Inl FilenameEmptyAfterSanitization
              else Inr sanitized)"

subsection \<open>Node's \<^verbatim>\<open>path\<close> module, POSIX flavour\<close>

text \<open>
  \<^verbatim>\<open>path.join\<close> and \<^verbatim>\<open>path.resolve\<close> belong to the Node runtime, not to the
  repository. They are written here after their documented behaviour on POSIX
  (\<^verbatim>\<open>path.sep\<close> is \<^verbatim>\<open>/\<close>): a path is cut into segments at every slash; empty segments
  and \<^verbatim>\<open>.\<close> are dropped; \<^verbatim>\<open>..\<close> removes the segment before it, is dropped at the root
  of an absolute path, and is kept at the front of a relative one.
\<close>

fun segments :: "jsstring \<Rightarrow> jsstring \<Rightarrow> jsstring list" where
  "segments cur [] = [rev cur]"
| "segments cur (c # cs) =
     (if c = slash then rev cur # segments [] cs else segments (c # cur) cs)"

fun join_segs :: "jsstring list \<Rightarrow> jsstring" where
  "join_segs [] = []"
| "join_segs [s] = s"
| "join_segs (s # t # ss) = s @ slash # join_segs (t # ss)"

fun normalizeSegs :: "bool \<Rightarrow> jsstring list \<Rightarrow> jsstring list \<Rightarrow> jsstring list" where
  "normalizeSegs allowAboveRoot res [] = rev res"
| "normalizeSegs allowAboveRoot res (s # ss) =
     (if s = [] \<or> s = [dot] then normalizeSegs allowAboveRoot res ss
      else if s = [dot, dot] then
        (if res \<noteq> [] \<and> hd res \<noteq> [dot, dot] then normalizeSegs allowAboveRoot (tl res) ss
         else if allowAboveRoot then normalizeSegs allowAboveRoot ([dot, dot] # res) ss
         else normalizeSegs allowAboveRoot res ss)
      else normalizeSegs allowAboveRoot (s # res) ss)"

definition normalizeString :: "jsstring \<Rightarrow> bool \<Rightarrow> jsstring" where
  "normalizeString path allowAboveRoot =
     join_segs (normalizeSegs allowAboveRoot [] (segments [] path))"

definition isAbsolute :: "jsstring \<Rightarrow> bool" where
  "isAbsolute path = (case path of [] \<Rightarrow> False | c # _ \<Rightarrow> c = slash)"

definition normalize :: "jsstring \<Rightarrow> jsstring" where
  "normalize path =
     (if path = [] then js ''.''
      else let trailingSeparator = (last path = slash);
               p = normalizeString path (\<not> isAbsolute path)
           in if p = [] then (if isAbsolute path then [slash]
                              else if trailingSeparator then js ''./'' else js ''.'')
              else let p = (if trailingSeparator then p @ [slash] else p)
                   in if isAbsolute path then slash # p else p)"

text \<open>\<^verbatim>\<open>path.join(...args)\<close>: the non-empty arguments, glued with slashes, normalised.\<close>

definition join :: "jsstring list \<Rightarrow> jsstring" where
  "join args = (let parts = filter (\<lambda>a. a \<noteq> []) args
                in if parts = [] then js ''.'' else normalize (join_segs parts))"

text \<open>
  \<^verbatim>\<open>path.resolve(...args)\<close> walks the arguments from the right, then the working
  directory, until the path built so far is absolute. \<open>resolve_from\<close> is that walk over
  the reversed arguments followed by the working directory.
\<close>

fun resolve_from :: "jsstring list \<Rightarrow> jsstring \<Rightarrow> jsstring \<times> bool" where
  "resolve_from [] resolvedPath = (resolvedPath, False)"
| "resolve_from (path # rest) resolvedPath =
     (if path = [] then resolve_from rest resolvedPath
      else if isAbsolute path then (path @ slash # resolvedPath, True)
      else resolve_from rest (path @ slash # resolvedPath))"

definition resolve :: "jsstring \<Rightarrow> jsstring list \<Rightarrow> jsstring" where
  "resolve cwd args =
     (case resolve_from (rev args @ [cwd]) [] of
        (resolvedPath, resolvedAbsolute) \<Rightarrow>
          let p = normalizeString resolvedPath (\<not> resolvedAbsolute)
          in if resolvedAbsolute then slash # p
             else if p \<noteq> [] then p else js ''.'')"

subsection \<open>\<^verbatim>\<open>getSafeDataPath\<close>\<close>

text \<open>\<^verbatim>\<open>DATA_DIR = path.resolve(process.cwd(), 'data')\<close>; the working directory of the
  process is a parameter.\<close>

definition DATA_DIR :: "jsstring \<Rightarrow> jsstring" where
  "DATA_DIR cwd = resolve cwd [cwd, js ''data'']"

definition getSafeDataPath :: "jsstring \<Rightarrow> jsstring \<Rightarrow> error + jsstring" where
  "getSafeDataPath cwd filename =
     (case sanitizeFilename filename of
        Inl e \<Rightarrow> Inl e
      | Inr sanitized \<Rightarrow>
          let fullPath = join [DATA_DIR cwd, sanitized];
              resolvedPath = resolve cwd [fullPath]
          in if \<not> prefix (DATA_DIR cwd @ [slash]) resolvedPath \<and> resolvedPath \<noteq> DATA_DIR cwd
             then Inl PathTraversalDetected
             else Inr resolvedPath)"

definition isPathSafe :: "jsstring \<Rightarrow> jsstring \<Rightarrow> bool" where
  "isPathSafe cwd filePath =
     (let resolvedPath = resolve cwd [filePath]
      in prefix (DATA_DIR cwd @ [slash]) resolvedPath \<or> resolvedPath = DATA_DIR cwd)"

text \<open>
  A path lies strictly below a directory when it continues the directory's path with a
  separator and at least one more character. A proper segment is a file or directory
  name: not empty, not \<^verbatim>\<open>.\<close> or \<^verbatim>\<open>..\<close>, and without a separator.
\<close>

definition is_descendant :: "jsstring \<Rightarrow> jsstring \<Rightarrow> bool" where
  "is_descendant root p = (prefix (root @ [slash]) p \<and> length root + 1 < length p)"

definition proper_segment :: "jsstring \<Rightarrow> bool" where
  "proper_segment s = (s \<noteq> [] \<and> s \<noteq> [dot] \<and> s \<noteq> [dot, dot] \<and> slash \<notin> set s)"

section \<open>Input validation (utils/validation.ts)\<close>

text \<open>\<^verbatim>\<open>String.prototype.includes_str\<close>: the pattern occurs somewhere in the string.\<close>

fun includes_str :: "jsstring \<Rightarrow> jsstring \<Rightarrow> bool" where
  "includes_str [] pat = (pat = [])"
| "includes_str (c # cs) pat = (prefix pat (c # cs) \<or> includes_str cs pat)"

text \<open>The regular expression class \<^verbatim>\<open>\d\<close>: the ASCII digits.\<close>

definition is_digit :: "jschar \<Rightarrow> bool" where
  "is_digit c = (0x30 \<le> c \<and> c \<le> 0x39)"

text \<open>Both identifier checks take \<^verbatim>\<open>string | null\<close>; \<open>None\<close> is \<^verbatim>\<open>null\<close>. The
  pattern is \<^verbatim>\<open>/^\d{17,19}$/\<close>.\<close>

definition validateChannelId :: "jsstring option \<Rightarrow> error + jsstring" where
  "validateChannelId input =
     (case input of
        None \<Rightarrow> Inl (ValidationError ''Channel ID cannot be empty'')
      | Some s \<Rightarrow>
          if length s = 0 then Inl (ValidationError ''Channel ID cannot be empty'')
          else if \<not> (17 \<le> length s \<and> length s \<le> 19 \<and> list_all is_digit s)
          then Inl (ValidationError ''Invalid Channel ID format (must be 17-19 digits)'')
          else Inr s)"

definition validateUsername :: "jsstring option \<Rightarrow> error + jsstring" where
  "validateUsername input =
     (case input of
        None \<Rightarrow> Inl (ValidationError ''Username cannot be empty'')
      | Some s \<Rightarrow>
          if length s = 0 then Inl (ValidationError ''Username cannot be empty'')
          else if 37 < length s
          then Inl (ValidationError ''Username too long (maximum 37 characters)'')
          else if includes_str s (js ''..'') \<or> includes_str s (js ''/'') \<or> includes_str s [backslash]
          then Inl (ValidationError ''Username contains invalid path characters'')
          else (case sanitizeFilename s of
                  Inl e \<Rightarrow> Inl (ValidationError ''Invalid username'')
                | Inr name \<Rightarrow> Inr name))"

subsection \<open>\<^verbatim>\<open>validateMessageContent\<close>\<close>

text \<open>
  The class \<^verbatim>\<open>\s\<close> of a JavaScript regular expression, which is also what
  \<^verbatim>\<open>String.prototype.trim\<close> strips: the white space and line terminator code units.
\<close>

definition isWhiteSpace :: "jschar \<Rightarrow> bool" where
  "isWhiteSpace c =
     ((0x09 \<le> c \<and> c \<le> 0x0D) \<or> c = 0x20 \<or> c = 0xA0 \<or> c = 0x1680 \<or>
      (0x2000 \<le> c \<and> c \<le> 0x200A) \<or> c = 0x2028 \<or> c = 0x2029 \<or> c = 0x202F \<or>
      c = 0x205F \<or> c = 0x3000 \<or> c = 0xFEFF)"

text \<open>\<^verbatim>\<open>input.replace(/\s+/g, ' ')\<close>: every maximal run of white space becomes one space.\<close>

function collapse_ws :: "jsstring \<Rightarrow> jsstring" where
  "collapse_ws [] = []"
| "collapse_ws (c # cs) =
     (if isWhiteSpace c then 0x20 # collapse_ws (dropWhile isWhiteSpace cs)
      else c # collapse_ws cs)"
  by pat_completeness auto
termination
  by (relation "measure length") (auto simp: less_Suc_eq_le length_dropWhile_le)

definition trim :: "jsstring \<Rightarrow> jsstring" where
  "trim s = rev (dropWhile isWhiteSpace (rev (dropWhile isWhiteSpace s)))"

text \<open>
  Case-insensitive matching (flag \<^verbatim>\<open>i\<close>, no \<^verbatim>\<open>u\<close>) of a pattern of ASCII characters:
  a code unit matches a pattern letter when it is that letter in either case; code units
  outside ASCII never match an ASCII pattern character.
\<close>

definition to_upper :: "jschar \<Rightarrow> jschar" where
  "to_upper c = (if 0x61 \<le> c \<and> c \<le> 0x7A then c - 0x20 else c)"

definition starts_with_ci :: "jsstring \<Rightarrow> jsstring \<Rightarrow> bool" where
  "starts_with_ci pat s =
     (length pat \<le> length s \<and> map to_upper (take (length pat) s) = map to_upper pat)"

text \<open>\<^verbatim>\<open>s.replace(/pat/gi, rep)\<close> for a literal, non-empty pattern: the matches are
  found from left to right and do not overlap.\<close>

function replace_all_ci :: "jsstring \<Rightarrow> jsstring \<Rightarrow> jsstring \<Rightarrow> jsstring" where
  "replace_all_ci pat rep [] = []"
| "replace_all_ci pat rep (c # cs) =
     (if pat \<noteq> [] \<and> starts_with_ci pat (c # cs)
      then rep @ replace_all_ci pat rep (drop (length pat) (c # cs))
      else c # replace_all_ci pat rep cs)"
  by pat_completeness auto
termination
  by (relation "measure (\<lambda>(pat, rep, s). length s)") (auto simp: neq_Nil_conv)

definition MAX_MESSAGE_LENGTH :: nat where
  "MAX_MESSAGE_LENGTH = 4000"

definition validateMessageContent :: "jsstring \<Rightarrow> error + jsstring" where
  "validateMessageContent input =
     (if length input = 0 then Inl (ValidationError ''Message content cannot be empty'')
      else if MAX_MESSAGE_LENGTH < length input
      then Inl (ValidationError ''Message too long'')
      else let sanitized = trim (collapse_ws input)
           in if length sanitized = 0
              then Inl (ValidationError ''Message content cannot be empty or whitespace-only'')
              else Inr (replace_all_ci (js ''[ADMIN]'') (js ''[FILTERED]'')
                         (replace_all_ci (js ''[SYSTEM]'') (js ''[FILTERED]'') sanitized)))"

section \<open>Documents and the file system\<close>

text \<open>
  A parsed JSON value. Numbers are integers here: the handlers never compute with a
  number, they only test it for truthiness. An object is the list of its members in
  insertion order; \<^verbatim>\<open>JSON.parse\<close> never yields one key twice.
\<close>

datatype json =
    JNull
  | JBool bool
  | JNum int
  | JStr jsstring
  | JArr "json list"
  | JObj "(jsstring \<times> json) list"

text \<open>
  The content of a file, as far as the handlers can tell contents apart: text that is
  empty or white space only (\<^verbatim>\<open>data.trim().length === 0\<close>), other text that
  \<^verbatim>\<open>JSON.parse\<close> rejects, and text that parses to a value. \<^verbatim>\<open>JSON.parse\<close> throws a
  \<^verbatim>\<open>SyntaxError\<close> on the first two, and \<^verbatim>\<open>JSON.stringify\<close> of a value is text that
  parses back to it.
\<close>

datatype filedata = Blank | Malformed | Json json

definition JSON_parse :: "filedata \<Rightarrow> error + json" where
  "JSON_parse data = (case data of Json v \<Rightarrow> Inr v | _ \<Rightarrow> Inl SyntaxError)"

definition JSON_stringify :: "json \<Rightarrow> filedata" where
  "JSON_stringify v = Json v"

text \<open>
  The file system, as Linux presents it. It is a tree of directories and regular files,
  kept as a map from the absolute, normalised path of every entry to what is there; the
  root directory always exists and has the empty key.
  With it go the calls the operating system refuses for a reason outside the tree
  (\<open>denied\<close>: permissions, a read-only or full device, an I/O error, a symbolic link
  that leads nowhere), each with the code it is refused with, and the list of the calls
  made so far. The handlers only pass absolute, normalised paths (results of
  \<^verbatim>\<open>path.resolve\<close> and their \<^verbatim>\<open>dirname\<close>).
\<close>

datatype node = File filedata | Dir

datatype fsop =
    ReadFile jsstring
  | WriteFile jsstring filedata
  | Rename jsstring jsstring
  | Mkdir jsstring

record fs_state =
  files :: "jsstring \<rightharpoonup> node"
  denied :: "fsop \<Rightarrow> errno option"
  trace :: "fsop list"

definition no_denial :: "fsop \<Rightarrow> errno option" where
  "no_denial op = None"

text \<open>
  A path reaches the system calls in UTF-8: one byte for a code unit below \<^verbatim>\<open>0x80\<close>, two
  below \<^verbatim>\<open>0x800\<close>, four for a surrogate pair and three for any other code unit. A path of
  \<open>PATH_MAX\<close> bytes or more, or a component of more than \<open>NAME_MAX\<close> bytes, is refused
  with \<^verbatim>\<open>ENAMETOOLONG\<close>.
\<close>

definition is_high_surrogate :: "jschar \<Rightarrow> bool" where
  "is_high_surrogate c = (0xD800 \<le> c \<and> c \<le> 0xDBFF)"

definition is_low_surrogate :: "jschar \<Rightarrow> bool" where
  "is_low_surrogate c = (0xDC00 \<le> c \<and> c \<le> 0xDFFF)"

fun utf8_length :: "jsstring \<Rightarrow> nat" where
  "utf8_length [] = 0"
| "utf8_length [c] = (if c < 0x80 then 1 else if c < 0x800 then 2 else 3)"
| "utf8_length (c # d # ds) =
     (if c < 0x80 then 1 + utf8_length (d # ds)
      else if c < 0x800 then 2 + utf8_length (d # ds)
      else if is_high_surrogate c \<and> is_low_surrogate d then 4 + utf8_length ds
      else 3 + utf8_length (d # ds))"

definition NAME_MAX :: nat where
  "NAME_MAX = 255"

definition PATH_MAX :: nat where
  "PATH_MAX = 4096"

text \<open>
  Path resolution. The components of a path are its non-empty segments. The kernel walks
  them from the root: every component but the last must name an existing directory
  (\<^verbatim>\<open>ENAMETOOLONG\<close> for a name that is too long, \<^verbatim>\<open>ENOENT\<close> if nothing is there,
  \<^verbatim>\<open>ENOTDIR\<close> if a regular file is). \<open>parent_dir\<close> is the key of the directory the walk
  ends in, \<open>entry\<close> the key of the last component inside it, whether or not it exists.
\<close>

definition components :: "jsstring \<Rightarrow> jsstring list" where
  "components p = filter (\<lambda>s. s \<noteq> []) (segments [] p)"

definition child :: "jsstring \<Rightarrow> jsstring \<Rightarrow> jsstring" where
  "child dir c = dir @ slash # c"

definition node_at :: "(jsstring \<rightharpoonup> node) \<Rightarrow> jsstring \<Rightarrow> node option" where
  "node_at fs k = (if k = [] then Some Dir else fs k)"

fun walk_dirs :: "(jsstring \<rightharpoonup> node) \<Rightarrow> jsstring \<Rightarrow> jsstring list \<Rightarrow> errno + jsstring" where
  "walk_dirs fs cur [] = Inr cur"
| "walk_dirs fs cur (c # cs) =
     (if NAME_MAX < utf8_length c then Inl ENAMETOOLONG
      else (case fs (child cur c) of
              None \<Rightarrow> Inl ENOENT
            | Some (File d) \<Rightarrow> Inl ENOTDIR
            | Some Dir \<Rightarrow> walk_dirs fs (child cur c) cs))"

definition parent_dir :: "(jsstring \<rightharpoonup> node) \<Rightarrow> jsstring \<Rightarrow> errno + jsstring" where
  "parent_dir fs p =
     (if PATH_MAX \<le> utf8_length p then Inl ENAMETOOLONG
      else walk_dirs fs [] (butlast (components p)))"

definition entry :: "jsstring \<Rightarrow> jsstring \<Rightarrow> errno + jsstring" where
  "entry dir p =
     (let cs = components p
      in if cs = [] then Inr []
         else if NAME_MAX < utf8_length (last cs) then Inl ENAMETOOLONG
         else Inr (child dir (last cs)))"

definition locate :: "(jsstring \<rightharpoonup> node) \<Rightarrow> jsstring \<Rightarrow> errno + jsstring" where
  "locate fs p = (case parent_dir fs p of Inl e \<Rightarrow> Inl e | Inr dir \<Rightarrow> entry dir p)"

text \<open>
  The calls of \<^verbatim>\<open>fs.promises\<close> the handlers use; each returns its outcome and the file
  system after it. A refused call fails with the code of the refusal. Otherwise
  \<^verbatim>\<open>readFile\<close> fails with \<^verbatim>\<open>ENOENT\<close> when the path resolves and nothing is there, and
  with \<^verbatim>\<open>EISDIR\<close> on a directory.
\<close>

definition readFile :: "fs_state \<Rightarrow> jsstring \<Rightarrow> (errno + filedata) \<times> fs_state" where
  "readFile st p =
     ((case denied st (ReadFile p) of
         Some e \<Rightarrow> Inl e
       | None \<Rightarrow>
           (case locate (files st) p of
              Inl e \<Rightarrow> Inl e
            | Inr k \<Rightarrow>
                (case node_at (files st) k of
                   None \<Rightarrow> Inl ENOENT
                 | Some Dir \<Rightarrow> Inl EISDIR
                 | Some (File d) \<Rightarrow> Inr d))),
      st\<lparr>trace := trace st @ [ReadFile p]\<rparr>)"

text \<open>\<^verbatim>\<open>writeFile\<close> creates the file or replaces its content.\<close>

definition writeFile :: "fs_state \<Rightarrow> jsstring \<Rightarrow> filedata \<Rightarrow> (errno + unit) \<times> fs_state" where
  "writeFile st p d =
     (let st' = st\<lparr>trace := trace st @ [WriteFile p d]\<rparr>
      in case denied st (WriteFile p d) of
           Some e \<Rightarrow> (Inl e, st')
         | None \<Rightarrow>
             (case locate (files st) p of
                Inl e \<Rightarrow> (Inl e, st')
              | Inr k \<Rightarrow>
                  if node_at (files st) k = Some Dir then (Inl EISDIR, st')
                  else (Inr (), st'\<lparr>files := (files st)(k \<mapsto> File d)\<rparr>)))"

text \<open>
  \<^verbatim>\<open>rename\<close> resolves both parent directories, then the old entry, which must exist,
  then the new one, which it replaces. The handlers rename regular files only; of a
  directory the model moves the entry itself.
\<close>

definition rename :: "fs_state \<Rightarrow> jsstring \<Rightarrow> jsstring \<Rightarrow> (errno + unit) \<times> fs_state" where
  "rename st old new =
     (let st' = st\<lparr>trace := trace st @ [Rename old new]\<rparr>
      in case denied st (Rename old new) of
           Some e \<Rightarrow> (Inl e, st')
         | None \<Rightarrow>
             if components old = [] \<or> components new = [] then (Inl EBUSY, st')
             else
               (case parent_dir (files st) old of
                  Inl e \<Rightarrow> (Inl e, st')
                | Inr d1 \<Rightarrow>
                    (case parent_dir (files st) new of
                       Inl e \<Rightarrow> (Inl e, st')
                     | Inr d2 \<Rightarrow>
                         (case entry d1 old of
                            Inl e \<Rightarrow> (Inl e, st')
                          | Inr k1 \<Rightarrow>
                              (case files st k1 of
                                 None \<Rightarrow> (Inl ENOENT, st')
                               | Some n \<Rightarrow>
                                   (case entry d2 new of
                                      Inl e \<Rightarrow> (Inl e, st')
                                    | Inr k2 \<Rightarrow>
                                        if n \<noteq> Dir \<and> files st k2 = Some Dir
                                        then (Inl EISDIR, st')
                                        else if n = Dir \<and> files st k2 \<noteq> None
                                                \<and> files st k2 \<noteq> Some Dir
                                        then (Inl ENOTDIR, st')
                                        else (Inr (),
                                              st'\<lparr>files := (files st)(k1 := None,
                                                                         k2 \<mapsto> n)\<rparr>)))))))"

text \<open>
  \<^verbatim>\<open>mkdir(p, { recursive: true })\<close> makes every directory on the path that is missing and
  succeeds on an existing directory; a regular file in the way is \<^verbatim>\<open>EEXIST\<close> at the end
  of the path and \<^verbatim>\<open>ENOTDIR\<close> before it.
\<close>

fun mkdirs :: "(jsstring \<rightharpoonup> node) \<Rightarrow> jsstring \<Rightarrow> jsstring list
               \<Rightarrow> errno option \<times> (jsstring \<rightharpoonup> node)" where
  "mkdirs fs cur [] = (None, fs)"
| "mkdirs fs cur (c # cs) =
     (if NAME_MAX < utf8_length c then (Some ENAMETOOLONG, fs)
      else (case fs (child cur c) of
              None \<Rightarrow> mkdirs (fs(child cur c \<mapsto> Dir)) (child cur c) cs
            | Some Dir \<Rightarrow> mkdirs fs (child cur c) cs
            | Some (File d) \<Rightarrow> (Some (if cs = [] then EEXIST else ENOTDIR), fs)))"

definition mkdir :: "fs_state \<Rightarrow> jsstring \<Rightarrow> (errno + unit) \<times> fs_state" where
  "mkdir st p =
     (let st' = st\<lparr>trace := trace st @ [Mkdir p]\<rparr>
      in case denied st (Mkdir p) of
           Some e \<Rightarrow> (Inl e, st')
         | None \<Rightarrow>
             if PATH_MAX \<le> utf8_length p then (Inl ENAMETOOLONG, st')
             else (case mkdirs (files st) [] (components p) of
                     (Some e, fs') \<Rightarrow> (Inl e, st'\<lparr>files := fs'\<rparr>)
                   | (None, fs') \<Rightarrow> (Inr (), st'\<lparr>files := fs'\<rparr>)))"

text \<open>
  \<^verbatim>\<open>path.dirname\<close> (Node, POSIX): trailing separators are ignored, the result is the
  path up to the last separator before the final segment, \<^verbatim>\<open>/\<close> or \<^verbatim>\<open>.\<close> when there
  is none.
\<close>

definition dirname :: "jsstring \<Rightarrow> jsstring" where
  "dirname path =
     (if path = [] then js ''.''
      else let hasRoot = (hd path = slash);
               r = dropWhile (\<lambda>c. c \<noteq> slash) (dropWhile (\<lambda>c. c = slash) (rev (tl path)))
           in if r = [] then (if hasRoot then js ''/'' else js ''.'')
              else if hasRoot \<and> length r = 1 then js ''//''
              else take (length r) path)"

subsection \<open>Reading a member, truthiness, assignment\<close>

text \<open>
  \<open>member v k\<close> is the expression \<^verbatim>\<open>v.k\<close> for the member names the handlers read
  (\<^verbatim>\<open>id\<close>, \<^verbatim>\<open>name\<close>, \<^verbatim>\<open>messages\<close>, \<^verbatim>\<open>options\<close>): a \<^verbatim>\<open>TypeError\<close> on \<^verbatim>\<open>null\<close>,
  the member of an object, and \<^verbatim>\<open>undefined\<close> (\<open>None\<close>) otherwise, since no array,
  string, number or boolean has a property of one of these names.
\<close>

definition member :: "json \<Rightarrow> jsstring \<Rightarrow> error + json option" where
  "member v k = (case v of
                   JNull \<Rightarrow> Inl TypeError
                 | JObj kvs \<Rightarrow> Inr (map_of kvs k)
                 | _ \<Rightarrow> Inr None)"

fun truthy :: "json option \<Rightarrow> bool" where
  "truthy None = False"
| "truthy (Some JNull) = False"
| "truthy (Some (JBool b)) = b"
| "truthy (Some (JNum n)) = (n \<noteq> 0)"
| "truthy (Some (JStr s)) = (s \<noteq> [])"
| "truthy (Some (JArr xs)) = True"
| "truthy (Some (JObj kvs)) = True"

fun isArray :: "json option \<Rightarrow> bool" where
  "isArray (Some (JArr xs)) = True"
| "isArray _ = False"

text \<open>Setting a member of an object: an existing member keeps its place, a new one goes
  to the end.\<close>

fun put :: "(jsstring \<times> json) list \<Rightarrow> jsstring \<Rightarrow> json \<Rightarrow> (jsstring \<times> json) list" where
  "put [] k v = [(k, v)]"
| "put ((k', v') # kvs) k v = (if k' = k then (k, v) # kvs else (k', v') # put kvs k v)"

text \<open>
  The assignment \<^verbatim>\<open>target[key] = value\<close>, returning the target after it. On an object
  it sets the member, except that \<^verbatim>\<open>__proto__\<close> reaches the setter of
  \<^verbatim>\<open>Object.prototype\<close> unless the object has a member of that name of its own, and then
  no member is created. On a string, number or boolean it throws a \<^verbatim>\<open>TypeError\<close> (module
  code is strict), as it does on \<^verbatim>\<open>null\<close>. What it does on an array depends on the key
  (an index, \<^verbatim>\<open>length\<close>, or a name that \<^verbatim>\<open>JSON.stringify\<close> will not see); that part of
  the language is the parameter \<open>array_assign\<close>.
\<close>

type_synonym array_assign = "json list \<Rightarrow> jsstring \<Rightarrow> json \<Rightarrow> error + json list"

definition assign_member :: "array_assign \<Rightarrow> json \<Rightarrow> jsstring \<Rightarrow> json \<Rightarrow> error + json" where
  "assign_member array_assign target key v =
     (case target of
        JObj kvs \<Rightarrow>
          Inr (JObj (if key = js ''__proto__'' \<and> map_of kvs key = None then kvs
                     else put kvs key v))
      | JArr xs \<Rightarrow> (case array_assign xs key v of
                      Inl e \<Rightarrow> Inl e
                    | Inr xs' \<Rightarrow> Inr (JArr xs'))
      | _ \<Rightarrow> Inl TypeError)"

section \<open>Configuration handler (utils/handlers/configHandler.ts)\<close>

text \<open>
  The handlers run their file operations under a per-path mutex (\<^verbatim>\<open>withLock\<close>). The
  model is one handler at a time, so the lock is the identity. An option value is a
  string, a number or a boolean.
\<close>

datatype scalar = SStr jsstring | SNum int | SBool bool

fun scalar_json :: "scalar \<Rightarrow> json" where
  "scalar_json (SStr s) = JStr s"
| "scalar_json (SNum n) = JNum n"
| "scalar_json (SBool b) = JBool b"

text \<open>\<^verbatim>\<open>isServerConfigurationKey\<close> is imported from a module that is not among the
  sources; it is a parameter.\<close>

definition createDefaultConfig :: "(jsstring \<Rightarrow> bool) \<Rightarrow> jsstring \<Rightarrow> scalar \<Rightarrow> json" where
  "createDefaultConfig isServerConfigurationKey key v =
     JObj [(js ''name'', JStr (if isServerConfigurationKey key
                               then js ''Server Configurations''
                               else js ''User Configurations'')),
           (js ''options'', JObj [(key, scalar_json v)])]"

text \<open>
  The two statements of \<^verbatim>\<open>openConfig\<close> on the parsed document:
  \<^verbatim>\<open>if (!object.options) object.options = {}\<close> and \<^verbatim>\<open>object.options[key] = value\<close>,
  returning what \<^verbatim>\<open>JSON.stringify\<close> will see of the document afterwards. On an array
  the member \<^verbatim>\<open>options\<close> is created but is not part of the array's JSON text.
\<close>

definition update_options :: "array_assign \<Rightarrow> json \<Rightarrow> jsstring \<Rightarrow> scalar \<Rightarrow> error + json" where
  "update_options array_assign object key v =
     (case object of
        JNull \<Rightarrow> Inl TypeError
      | JObj kvs \<Rightarrow>
          let kvs1 = (if \<not> truthy (map_of kvs (js ''options''))
                      then put kvs (js ''options'') (JObj []) else kvs)
          in (case map_of kvs1 (js ''options'') of
                None \<Rightarrow> Inl TypeError
              | Some opts \<Rightarrow>
                  (case assign_member array_assign opts key (scalar_json v) of
                     Inl e \<Rightarrow> Inl e
                   | Inr opts' \<Rightarrow> Inr (JObj (put kvs1 (js ''options'') opts'))))
      | JArr xs \<Rightarrow> Inr (JArr xs)
      | _ \<Rightarrow> Inl TypeError)"

text \<open>The \<^verbatim>\<open>try\<close> block of \<^verbatim>\<open>openConfig\<close>: read, parse, update, write the temporary
  file, rename it over the target. The first failure ends the block.\<close>

definition openConfig_try ::
  "array_assign \<Rightarrow> fs_state \<Rightarrow> jsstring \<Rightarrow> jsstring \<Rightarrow> scalar \<Rightarrow> (error + unit) \<times> fs_state" where
  "openConfig_try array_assign st fullFileName key v =
     (case readFile st fullFileName of
        (Inl code, st1) \<Rightarrow> (Inl (SystemError code), st1)
      | (Inr data, st1) \<Rightarrow>
          (case JSON_parse data of
             Inl e \<Rightarrow> (Inl e, st1)
           | Inr object \<Rightarrow>
               (case update_options array_assign object key v of
                  Inl e \<Rightarrow> (Inl e, st1)
                | Inr object' \<Rightarrow>
                    let tempFile = fullFileName @ js ''.tmp''
                    in (case writeFile st1 tempFile (JSON_stringify object') of
                          (Inl code, st2) \<Rightarrow> (Inl (SystemError code), st2)
                        | (Inr u, st2) \<Rightarrow>
                            (case rename st2 tempFile fullFileName of
                               (Inl code, st3) \<Rightarrow> (Inl (SystemError code), st3)
                             | (Inr u, st3) \<Rightarrow> (Inr (), st3))))))"

text \<open>\<^verbatim>\<open>openConfig\<close>: the \<^verbatim>\<open>catch\<close> block creates the file when the error carries the
  code \<^verbatim>\<open>ENOENT\<close> and wraps every other error.\<close>

definition openConfig ::
  "(jsstring \<Rightarrow> bool) \<Rightarrow> array_assign \<Rightarrow> jsstring \<Rightarrow> fs_state \<Rightarrow> jsstring \<Rightarrow> jsstring \<Rightarrow> scalar
   \<Rightarrow> (error + unit) \<times> fs_state" where
  "openConfig isServerConfigurationKey array_assign cwd st filename key v =
     (case getSafeDataPath cwd filename of
        Inl e \<Rightarrow> (Inl e, st)
      | Inr fullFileName \<Rightarrow>
          (case openConfig_try array_assign st fullFileName key v of
             (Inr u, st1) \<Rightarrow> (Inr (), st1)
           | (Inl error, st1) \<Rightarrow>
               if error = SystemError ENOENT
               then let object = createDefaultConfig isServerConfigurationKey key v
                    in (case mkdir st1 (dirname fullFileName) of
                          (Inl code, st2) \<Rightarrow> (Inl (SystemError code), st2)
                        | (Inr u, st2) \<Rightarrow>
                            (case writeFile st2 fullFileName (JSON_stringify object) of
                               (Inl code, st3) \<Rightarrow> (Inl (SystemError code), st3)
                             | (Inr u, st3) \<Rightarrow> (Inr (), st3)))
               else (Inl (FailedToUpdateConfig error), st1)))"

text \<open>
  The readers. The body of the \<^verbatim>\<open>try\<close> block yields the parsed document or the error
  thrown; \<open>catch_read\<close> is the \<^verbatim>\<open>catch\<close> block they share: \<^verbatim>\<open>null\<close> for an error with
  the code \<^verbatim>\<open>ENOENT\<close>, a wrapping \<^verbatim>\<open>Error\<close> for any other.
\<close>

definition catch_read :: "error + json \<Rightarrow> error + json option" where
  "catch_read r = (case r of
                     Inr parsed \<Rightarrow> Inr (Some parsed)
                   | Inl error \<Rightarrow> if error = SystemError ENOENT then Inr None
                                  else Inl (FailedToRead error))"

text \<open>\<^verbatim>\<open>!parsed.name || !parsed.options\<close>\<close>

definition config_invalid :: "json \<Rightarrow> error + bool" where
  "config_invalid parsed =
     (case member parsed (js ''name'') of
        Inl e \<Rightarrow> Inl e
      | Inr n \<Rightarrow> if \<not> truthy n then Inr True
                 else (case member parsed (js ''options'') of
                         Inl e \<Rightarrow> Inl e
                       | Inr opts \<Rightarrow> Inr (\<not> truthy opts)))"

definition read_config_try :: "fs_state \<Rightarrow> jsstring \<Rightarrow> (error + json) \<times> fs_state" where
  "read_config_try st fullFileName =
     (case readFile st fullFileName of
        (Inl code, st1) \<Rightarrow> (Inl (SystemError code), st1)
      | (Inr data, st1) \<Rightarrow>
          if data = Blank then (Inl FileIsEmpty, st1)
          else (case JSON_parse data of
                  Inl e \<Rightarrow> (Inl e, st1)
                | Inr parsed \<Rightarrow>
                    (case config_invalid parsed of
                       Inl e \<Rightarrow> (Inl e, st1)
                     | Inr True \<Rightarrow> (Inl InvalidStructure, st1)
                     | Inr False \<Rightarrow> (Inr parsed, st1))))"

definition getServerConfig :: "jsstring \<Rightarrow> fs_state \<Rightarrow> jsstring \<Rightarrow> (error + json option) \<times> fs_state" where
  "getServerConfig cwd st filename =
     (case getSafeDataPath cwd filename of
        Inl e \<Rightarrow> (Inl e, st)
      | Inr fullFileName \<Rightarrow>
          (case read_config_try st fullFileName of (r, st1) \<Rightarrow> (catch_read r, st1)))"

definition getUserConfig :: "jsstring \<Rightarrow> fs_state \<Rightarrow> jsstring \<Rightarrow> (error + json option) \<times> fs_state" where
  "getUserConfig cwd st filename =
     (case getSafeDataPath cwd filename of
        Inl e \<Rightarrow> (Inl e, st)
      | Inr fullFileName \<Rightarrow>
          (case read_config_try st fullFileName of (r, st1) \<Rightarrow> (catch_read r, st1)))"

section \<open>Chat history handler (utils/handlers/chatHistoryHandler.ts)\<close>

record UserMessage =
  role :: jsstring
  content :: jsstring
  images :: "jsstring list"

definition message_json :: "UserMessage \<Rightarrow> json" where
  "message_json m = JObj [(js ''role'', JStr (role m)),
                          (js ''content'', JStr (content m)),
                          (js ''images'', JArr (map JStr (images m)))]"

text \<open>The \<^verbatim>\<open>try\<close> block both savers share: make the directory, write the temporary
  file, rename it over the target.\<close>

definition save_try :: "fs_state \<Rightarrow> jsstring \<Rightarrow> json \<Rightarrow> (error + unit) \<times> fs_state" where
  "save_try st fullFileName channelInfo =
     (case mkdir st (dirname fullFileName) of
        (Inl code, st1) \<Rightarrow> (Inl (SystemError code), st1)
      | (Inr u, st1) \<Rightarrow>
          let tempFile = fullFileName @ js ''.tmp''
          in (case writeFile st1 tempFile (JSON_stringify channelInfo) of
                (Inl code, st2) \<Rightarrow> (Inl (SystemError code), st2)
              | (Inr u, st2) \<Rightarrow>
                  (case rename st2 tempFile fullFileName of
                     (Inl code, st3) \<Rightarrow> (Inl (SystemError code), st3)
                   | (Inr u, st3) \<Rightarrow> (Inr (), st3))))"

text \<open>Of the channel object the savers read \<^verbatim>\<open>channel.name\<close> only.\<close>

definition saveChannelContext ::
  "jsstring \<Rightarrow> fs_state \<Rightarrow> jsstring \<Rightarrow> jsstring \<Rightarrow> UserMessage list \<Rightarrow> (error + unit) \<times> fs_state" where
  "saveChannelContext cwd st channelId channel_name messages =
     (case validateChannelId (Some channelId) of
        Inl e \<Rightarrow> (Inl e, st)
      | Inr cid \<Rightarrow>
          (case getSafeDataPath cwd (cid @ js ''-context.json'') of
             Inl e \<Rightarrow> (Inl e, st)
           | Inr fullFileName \<Rightarrow>
               let channelInfo = JObj [(js ''id'', JStr channelId),
                                       (js ''name'', JStr channel_name),
                                       (js ''user'', JStr (js ''context'')),
                                       (js ''messages'', JArr (map message_json messages))]
               in (case save_try st fullFileName channelInfo of
                     (Inl e, st1) \<Rightarrow> (Inl (FailedToSave e), st1)
                   | (Inr u, st1) \<Rightarrow> (Inr (), st1))))"

definition saveChannelInfo ::
  "jsstring \<Rightarrow> fs_state \<Rightarrow> jsstring \<Rightarrow> jsstring \<Rightarrow> jsstring \<Rightarrow> UserMessage list
   \<Rightarrow> (error + unit) \<times> fs_state" where
  "saveChannelInfo cwd st channelId channel_name username messages =
     (case validateChannelId (Some channelId) of
        Inl e \<Rightarrow> (Inl e, st)
      | Inr cid \<Rightarrow>
          (case validateUsername (Some username) of
             Inl e \<Rightarrow> (Inl e, st)
           | Inr uname \<Rightarrow>
               (case getSafeDataPath cwd (cid @ js ''-'' @ uname @ js ''.json'') of
                  Inl e \<Rightarrow> (Inl e, st)
                | Inr fullFileName \<Rightarrow>
                    let channelInfo = JObj [(js ''id'', JStr channelId),
                                            (js ''name'', JStr channel_name),
                                            (js ''user'', JStr username),
                                            (js ''messages'', JArr (map message_json messages))]
                    in (case save_try st fullFileName channelInfo of
                          (Inl e, st1) \<Rightarrow> (Inl (FailedToSave e), st1)
                        | (Inr u, st1) \<Rightarrow> (Inr (), st1)))))"

text \<open>\<^verbatim>\<open>!parsed.id || !parsed.name || !Array.isArray(parsed.messages)\<close>\<close>

definition channel_invalid :: "json \<Rightarrow> error + bool" where
  "channel_invalid parsed =
     (case member parsed (js ''id'') of
        Inl e \<Rightarrow> Inl e
      | Inr i \<Rightarrow> if \<not> truthy i then Inr True
                 else (case member parsed (js ''name'') of
                         Inl e \<Rightarrow> Inl e
                       | Inr n \<Rightarrow> if \<not> truthy n then Inr True
                                  else (case member parsed (js ''messages'') of
                                          Inl e \<Rightarrow> Inl e
                                        | Inr ms \<Rightarrow> Inr (\<not> isArray ms))))"

definition read_channel_try :: "fs_state \<Rightarrow> jsstring \<Rightarrow> (error + json) \<times> fs_state" where
  "read_channel_try st fullFileName =
     (case readFile st fullFileName of
        (Inl code, st1) \<Rightarrow> (Inl (SystemError code), st1)
      | (Inr data, st1) \<Rightarrow>
          if data = Blank then (Inl FileIsEmpty, st1)
          else (case JSON_parse data of
                  Inl e \<Rightarrow> (Inl e, st1)
                | Inr parsed \<Rightarrow>
                    (case channel_invalid parsed of
                       Inl e \<Rightarrow> (Inl e, st1)
                     | Inr True \<Rightarrow> (Inl InvalidStructure, st1)
                     | Inr False \<Rightarrow> (Inr parsed, st1))))"

definition getChannelInfo :: "jsstring \<Rightarrow> fs_state \<Rightarrow> jsstring \<Rightarrow> (error + json option) \<times> fs_state" where
  "getChannelInfo cwd st filename =
     (case getSafeDataPath cwd filename of
        Inl e \<Rightarrow> (Inl e, st)
      | Inr fullFileName \<Rightarrow>
          (case read_channel_try st fullFileName of (r, st1) \<Rightarrow> (catch_read r, st1)))"

section \<open>Properties of the bounded queue\<close>

text \<open>With a capacity of at least 1 the eviction loop returns, having dropped just enough
  of the oldest elements to leave room for one more.\<close>

lemma evict_ok:
  "1 \<le> capacity q \<Longrightarrow>
   evict q = Some (q\<lparr>storage := drop (length (storage q) - (nat (capacity q) - 1)) (storage q)\<rparr>)"
proof (induction "storage q" arbitrary: q)
  case Nil
  then show ?case by (subst evict.simps) (simp add: size_q_def)
next
  case (Cons x xs)
  let ?q' = "q\<lparr>storage := xs\<rparr>"
  have st: "storage q = x # xs" using Cons.hyps(2) by simp
  have IH: "evict ?q' = Some (?q'\<lparr>storage := drop (length xs - (nat (capacity q) - 1)) xs\<rparr>)"
    using Cons.hyps(1)[of ?q'] Cons.prems by simp
  show ?case
  proof (cases "capacity q \<le> int (size_q q)")
    case True
    then have "evict q = evict ?q'"
      by (subst evict.simps) (simp add: dequeue_def st)
    moreover have "drop (length (storage q) - (nat (capacity q) - 1)) (storage q)
                 = drop (length xs - (nat (capacity q) - 1)) xs"
    proof -
      have "length (storage q) - (nat (capacity q) - 1) = Suc (length xs - (nat (capacity q) - 1))"
        using True Cons.prems by (simp add: st size_q_def)
      then show ?thesis by (simp add: st)
    qed
    ultimately show ?thesis using IH by simp
  next
    case False
    then have "length (storage q) - (nat (capacity q) - 1) = 0"
      by (simp add: size_q_def)
    with False show ?thesis by (subst evict.simps) simp
  qed
qed

text \<open>Whenever the loop returns at all, the capacity is positive.\<close>

lemma evict_Some_capacity_pos:
  assumes "evict q = Some q'"
  shows "0 < capacity q"
proof (rule evict.raw_induct[where P = "\<lambda>a b. 0 < capacity a", OF _ assms])
  fix ev :: "'a Queue \<Rightarrow> 'a Queue option" and a b
  assume IH: "\<And>x y. ev x = Some y \<Longrightarrow> 0 < capacity x"
    and step: "(if capacity a \<le> int (size_q a) then ev (snd (dequeue a)) else Some a) = Some b"
  show "0 < capacity a"
  proof (cases "capacity a \<le> int (size_q a)")
    case True
    with step have "ev (snd (dequeue a)) = Some b" by simp
    from IH[OF this] show ?thesis by (simp add: dequeue_def split: list.splits)
  next
    case False
    then show ?thesis by simp
  qed
qed


lemma enqueue_ok:
  "1 \<le> capacity q \<Longrightarrow>
   enqueue q x = Some (q\<lparr>storage := drop (length (storage q) - (nat (capacity q) - 1)) (storage q) @ [x]\<rparr>)"
  by (simp add: enqueue_def evict_ok)

lemma enqueue_all_ok:
  "1 \<le> capacity q \<Longrightarrow> int (length (storage q)) \<le> capacity q \<Longrightarrow>
   enqueue_all q xs =
     Some (q\<lparr>storage := drop (length (storage q @ xs) - nat (capacity q)) (storage q @ xs)\<rparr>)"
proof (induction xs arbitrary: q)
  case Nil
  then show ?case by simp
next
  case (Cons x xs)
  let ?s = "drop (length (storage q) - (nat (capacity q) - 1)) (storage q) @ [x]"
  let ?q' = "q\<lparr>storage := ?s\<rparr>"
  have e: "enqueue q x = Some ?q'" using Cons.prems(1) by (rule enqueue_ok)
  have len: "int (length (storage ?q')) \<le> capacity ?q'"
    using Cons.prems by simp
  have cap: "1 \<le> capacity ?q'" using Cons.prems by simp
  have "drop (length (?s @ xs) - nat (capacity q)) (?s @ xs)
      = drop (length (storage q @ x # xs) - nat (capacity q)) (storage q @ x # xs)"
  proof (cases "int (length (storage q)) = capacity q")
    case True
    then have n: "length (storage q) - (nat (capacity q) - 1) = 1"
      using Cons.prems by simp
    have "storage q \<noteq> []" using True Cons.prems by auto
    then obtain y ys where s: "storage q = y # ys" by (cases "storage q") auto
    have c: "nat (capacity q) = Suc (length ys)" using True s by simp
    have eq: "drop (length (storage q) - (nat (capacity q) - 1)) (storage q) = ys"
      unfolding n by (simp add: s)
    show ?thesis unfolding eq by (simp add: s c)
  next
    case False
    then have n: "length (storage q) - (nat (capacity q) - 1) = 0"
      using Cons.prems by simp
    have eq: "drop (length (storage q) - (nat (capacity q) - 1)) (storage q) = storage q"
      unfolding n by simp
    show ?thesis unfolding eq by simp
  qed
  then show ?case using Cons.IH[OF cap len] e by simp
qed

text \<open>
  \<^bold>\<open>C4\<close> (queue law). For a queue constructed with capacity \<open>c \<ge> 1\<close> and any sequence
  \<open>xs\<close> of more than \<open>c\<close> items enqueued one after the other into the empty queue, every
  call returns, the final \<^verbatim>\<open>size()\<close> is \<open>c\<close>, and \<^verbatim>\<open>getItems()\<close> is the last \<open>c\<close>
  items of \<open>xs\<close> in the order they were enqueued.
\<close>

theorem queue_law:
  assumes "1 \<le> c" and "c < int (length xs)"
  shows "\<exists>q0 q. new_Queue c = Inr q0 \<and> enqueue_all q0 xs = Some q \<and>
                int (size_q q) = c \<and> getItems q = drop (length xs - nat c) xs"
proof -
  let ?q0 = "\<lparr>storage = [], capacity = c\<rparr> :: 'a Queue"
  have "enqueue_all ?q0 xs = Some (?q0\<lparr>storage := drop (length xs - nat c) xs\<rparr>)"
    using enqueue_all_ok[of ?q0 xs] assms by simp
  moreover have "new_Queue c = Inr ?q0" using assms by (simp add: new_Queue_def)
  moreover have "int (length (drop (length xs - nat c) xs)) = c" using assms by simp
  ultimately show ?thesis by (simp add: size_q_def getItems_def)
qed

theorem queue_law_witness:
  "\<exists>q0 q. new_Queue 3 = Inr q0 \<and> enqueue_all q0 [10, 20, 30, 40 :: nat] = Some q \<and>
          int (size_q q) = 3 \<and> getItems q = [20, 30, 40]"
  using queue_law[of 3 "[10, 20, 30, 40 :: nat]"] by simp


text \<open>
  \<^bold>\<open>C5\<close> (rollback law) as stated includes a queue that is already at capacity. There
  \<^verbatim>\<open>enqueue\<close> evicts the oldest element before appending and \<^verbatim>\<open>removeLast\<close> only removes
  the appended one: on the queue \<open>[1]\<close> of capacity 1, \<^verbatim>\<open>enqueue(2); removeLast()\<close> leaves
  the queue empty.
\<close>

theorem rollback_counterexample:
  "enqueue_then_removeLast \<lparr>storage = [1::nat], capacity = 1\<rparr> 2 = Some \<lparr>storage = [], capacity = 1\<rparr>
   \<and> getItems \<lparr>storage = [], capacity = 1\<rparr> \<noteq> getItems \<lparr>storage = [1::nat], capacity = 1\<rparr>"
  by (simp add: enqueue_then_removeLast_def enqueue_def evict.simps size_q_def dequeue_def
      removeLast_def getItems_def)

text \<open>
  \<^bold>\<open>C5\<close>, amended. On a queue whose size is below its capacity,
  \<^verbatim>\<open>enqueue(x); removeLast()\<close> returns the queue to the state it had before. On a queue
  at (or above) a capacity of at least 1, the sequence leaves the queue without the
  elements the eviction loop removed: its newest \<open>capacity - 1\<close> elements.
\<close>

theorem rollback_below_capacity:
  "(int (size_q q) < capacity q \<longrightarrow> enqueue_then_removeLast q x = Some q) \<and>
   (1 \<le> capacity q \<and> capacity q \<le> int (size_q q) \<longrightarrow>
      enqueue_then_removeLast q x =
        Some (q\<lparr>storage := drop (size_q q - (nat (capacity q) - 1)) (storage q)\<rparr>))"
proof (intro conjI impI)
  assume lt: "int (size_q q) < capacity q"
  then have c: "1 \<le> capacity q" by simp
  have "length (storage q) - (nat (capacity q) - 1) = 0" using lt by (simp add: size_q_def)
  then have "enqueue q x = Some (q\<lparr>storage := storage q @ [x]\<rparr>)"
    using enqueue_ok[OF c, of x] by simp
  then show "enqueue_then_removeLast q x = Some q"
    by (simp add: enqueue_then_removeLast_def removeLast_def)
next
  assume "1 \<le> capacity q \<and> capacity q \<le> int (size_q q)"
  then have c: "1 \<le> capacity q" by simp
  show "enqueue_then_removeLast q x =
        Some (q\<lparr>storage := drop (size_q q - (nat (capacity q) - 1)) (storage q)\<rparr>)"
    using enqueue_ok[OF c, of x]
    by (simp add: enqueue_then_removeLast_def removeLast_def size_q_def)
qed

theorem rollback_below_capacity_witness:
  "enqueue_then_removeLast \<lparr>storage = [1, 2 :: nat], capacity = 3\<rparr> 9
     = Some \<lparr>storage = [1, 2], capacity = 3\<rparr>
   \<and> enqueue_then_removeLast \<lparr>storage = [1, 2, 3 :: nat], capacity = 3\<rparr> 9
     = Some \<lparr>storage = [2, 3], capacity = 3\<rparr>"
  using rollback_below_capacity[of "\<lparr>storage = [1, 2 :: nat], capacity = 3\<rparr>" 9]
        rollback_below_capacity[of "\<lparr>storage = [1, 2, 3 :: nat], capacity = 3\<rparr>" 9]
  by (simp add: size_q_def)

text \<open>
  \<^bold>\<open>C6\<close>. \<^verbatim>\<open>setQueue\<close> with more items than the capacity throws the capacity error and
  leaves the queue exactly as it was; with at most \<open>capacity\<close> items it succeeds and the
  contents are the given sequence (the capacity is unchanged). The witness replays the
  scenario of the specification: capacity 3, contents \<open>B, C, D\<close> after four pushes.
\<close>

theorem setQueue_capacity:
  "(capacity q < int (length xs) \<longrightarrow>
      fst (setQueue q xs) = Inl (QueueCapacityExceeded (length xs) (capacity q)) \<and>
      snd (setQueue q xs) = q) \<and>
   (int (length xs) \<le> capacity q \<longrightarrow>
      fst (setQueue q xs) = Inr () \<and>
      getItems (snd (setQueue q xs)) = xs \<and>
      capacity (snd (setQueue q xs)) = capacity q)"
  by (simp add: setQueue_def getItems_def)

theorem setQueue_capacity_witness:
  "(\<exists>q. enqueue_all \<lparr>storage = [], capacity = 3\<rparr> ''ABCD'' = Some q \<and>
        getItems q = ''BCD'' \<and>
        fst (setQueue q ''EFGH'') = Inl (QueueCapacityExceeded 4 3) \<and>
        getItems (snd (setQueue q ''EFGH'')) = ''BCD'') \<and>
   fst (setQueue \<lparr>storage = ''BCD'', capacity = 3\<rparr> ''EFG'') = Inr () \<and>
   getItems (snd (setQueue \<lparr>storage = ''BCD'', capacity = 3\<rparr> ''EFG'')) = ''EFG''"
  using setQueue_capacity[of "\<lparr>storage = ''BCD'', capacity = 3\<rparr>" "''EFGH''"]
        setQueue_capacity[of "\<lparr>storage = ''BCD'', capacity = 3\<rparr>" "''EFG''"]
        enqueue_all_ok[of "\<lparr>storage = [], capacity = 3\<rparr>" "''ABCD''"]
  by (simp add: getItems_def)

text \<open>The budgeted loop agrees with the loop of the source whenever the budget suffices,
  and a budget of \<^verbatim>\<open>size()\<close> iterations always suffices when the capacity is at least 1.\<close>

lemma evict_within_sound: "evict_within n q = Some q' \<Longrightarrow> evict q = Some q'"
proof (induction n arbitrary: q)
  case 0
  then show ?case by (subst evict.simps) (simp split: if_splits)
next
  case (Suc n)
  show ?case
  proof (cases "capacity q \<le> int (size_q q)")
    case True
    with Suc.prems have "evict_within n (snd (dequeue q)) = Some q'" by simp
    then have "evict (snd (dequeue q)) = Some q'" by (rule Suc.IH)
    with True show ?thesis by (subst evict.simps) simp
  next
    case False
    with Suc.prems show ?thesis by (subst evict.simps) simp
  qed
qed

lemma evict_within_size:
  "1 \<le> capacity q \<Longrightarrow> length (storage q) \<le> n \<Longrightarrow> \<exists>q'. evict_within n q = Some q'"
proof (induction n arbitrary: q)
  case 0
  then show ?case by (simp add: size_q_def)
next
  case (Suc n)
  show ?case
  proof (cases "storage q")
    case Nil
    with Suc.prems show ?thesis by (simp add: size_q_def)
  next
    case (Cons y ys)
    have "\<exists>q'. evict_within n (q\<lparr>storage := ys\<rparr>) = Some q'"
      using Suc.prems Cons by (intro Suc.IH) simp_all
    then show ?thesis using Cons by (simp add: dequeue_def)
  qed
qed

text \<open>
  \<^bold>\<open>C10\<close>. If the capacity field is at least 1 when \<^verbatim>\<open>enqueue\<close> is called, the call
  returns, and its eviction loop runs at most \<^verbatim>\<open>size()\<close> iterations. The precondition
  is needed: on an empty queue whose capacity field has been set to \<open>c \<le> 0\<close> the call never
  returns.
\<close>

theorem enqueue_terminates:
  "(1 \<le> capacity q \<longrightarrow>
      (\<exists>q'. evict_within (size_q q) q = Some q' \<and>
            enqueue q x = Some (q'\<lparr>storage := storage q' @ [x]\<rparr>))) \<and>
   (c \<le> 0 \<longrightarrow> enqueue \<lparr>storage = [], capacity = c\<rparr> x = None)"
proof (intro conjI impI)
  assume c: "1 \<le> capacity q"
  from evict_within_size[OF c, of "size_q q"]
  obtain q' where w: "evict_within (size_q q) q = Some q'" by (auto simp: size_q_def)
  then have "evict q = Some q'" by (rule evict_within_sound)
  then have "enqueue q x = Some (q'\<lparr>storage := storage q' @ [x]\<rparr>)" by (simp add: enqueue_def)
  with w show "\<exists>q'. evict_within (size_q q) q = Some q' \<and>
            enqueue q x = Some (q'\<lparr>storage := storage q' @ [x]\<rparr>)" by blast
next
  assume c: "c \<le> 0"
  have "evict \<lparr>storage = [], capacity = c\<rparr> = (None :: 'a Queue option)"
  proof (cases "evict \<lparr>storage = [], capacity = c\<rparr> :: 'a Queue option")
    case None
    then show ?thesis .
  next
    case (Some q')
    from evict_Some_capacity_pos[OF this] c show ?thesis by simp
  qed
  then show "enqueue \<lparr>storage = [], capacity = c\<rparr> x = None" by (simp add: enqueue_def)
qed

theorem enqueue_terminates_witness:
  "evict_within 3 \<lparr>storage = [1, 2, 3 :: nat], capacity = 2\<rparr> = Some \<lparr>storage = [3], capacity = 2\<rparr>
   \<and> enqueue \<lparr>storage = [1, 2, 3 :: nat], capacity = 2\<rparr> 4 = Some \<lparr>storage = [3, 4], capacity = 2\<rparr>
   \<and> enqueue \<lparr>storage = [], capacity = 0\<rparr> (4::nat) = None"
  using enqueue_terminates[of "\<lparr>storage = [1, 2, 3 :: nat], capacity = 2\<rparr>" 4 0]
  by (simp add: size_q_def dequeue_def)

section \<open>Properties of the path confinement\<close>

text \<open>Cutting a path at its separators, and gluing separator-free segments back.\<close>

lemma segments_append_slash:
  "segments cur (a @ slash # b) = segments cur a @ segments [] b"
  by (induction a arbitrary: cur) auto

lemma segments_no_slash: "slash \<notin> set a \<Longrightarrow> segments cur a = [rev cur @ a]"
  by (induction a arbitrary: cur) auto

lemma segments_join_segs:
  "ss \<noteq> [] \<Longrightarrow> \<forall>s \<in> set ss. slash \<notin> set s \<Longrightarrow> segments [] (join_segs ss) = ss"
proof (induction ss rule: join_segs.induct)
  case 1
  then show ?case by simp
next
  case (2 s)
  then show ?case by (simp add: segments_no_slash)
next
  case (3 s t ss)
  then show ?case by (simp add: segments_append_slash segments_no_slash)
qed

lemma segments_slash_free:
  "slash \<notin> set cur \<Longrightarrow> \<forall>s \<in> set (segments cur p). slash \<notin> set s"
proof (induction p arbitrary: cur)
  case Nil
  then show ?case by simp
next
  case (Cons c p)
  have e: "\<forall>s \<in> set (segments [] p). slash \<notin> set s" by (rule Cons.IH) simp
  show ?case
  proof (cases "c = slash")
    case True
    with e Cons.prems show ?thesis by simp
  next
    case False
    then have "\<forall>s \<in> set (segments (c # cur) p). slash \<notin> set s"
      using Cons.prems by (intro Cons.IH) simp
    with False show ?thesis by simp
  qed
qed

text \<open>Normalisation of an absolute path leaves proper segments only, and leaves a list of
  proper segments as it is.\<close>

lemma normalizeSegs_proper:
  "\<forall>s \<in> set res. proper_segment s \<Longrightarrow> \<forall>s \<in> set xs. slash \<notin> set s \<Longrightarrow>
   \<forall>s \<in> set (normalizeSegs False res xs). proper_segment s"
proof (induction xs arbitrary: res)
  case Nil
  then show ?case by simp
next
  case (Cons x xs)
  have xs: "\<forall>s \<in> set xs. slash \<notin> set s" using Cons.prems(2) by simp
  have keep: "\<forall>s \<in> set (normalizeSegs False res xs). proper_segment s"
    using Cons.prems(1) xs by (rule Cons.IH)
  consider (skip) "x = [] \<or> x = [dot]" | (up) "x = [dot, dot]"
    | (name) "x \<noteq> []" "x \<noteq> [dot]" "x \<noteq> [dot, dot]" by blast
  then show ?case
  proof cases
    case skip
    then have "normalizeSegs False res (x # xs) = normalizeSegs False res xs" by auto
    with keep show ?thesis by simp
  next
    case up
    show ?thesis
    proof (cases "res \<noteq> [] \<and> hd res \<noteq> [dot, dot]")
      case True
      have "\<forall>s \<in> set (tl res). proper_segment s"
        using Cons.prems(1) by (cases res) simp_all
      then have "\<forall>s \<in> set (normalizeSegs False (tl res) xs). proper_segment s"
        using xs by (rule Cons.IH)
      moreover have "normalizeSegs False res (x # xs) = normalizeSegs False (tl res) xs"
        using up True by simp
      ultimately show ?thesis by simp
    next
      case False
      then have "normalizeSegs False res (x # xs) = normalizeSegs False res xs"
        using up by (cases "res = []") simp_all
      with keep show ?thesis by simp
    qed
  next
    case name
    then have "proper_segment x" using Cons.prems(2) by (simp add: proper_segment_def)
    then have "\<forall>s \<in> set (x # res). proper_segment s" using Cons.prems(1) by simp
    then have "\<forall>s \<in> set (normalizeSegs False (x # res) xs). proper_segment s"
      using xs by (rule Cons.IH)
    moreover have "normalizeSegs False res (x # xs) = normalizeSegs False (x # res) xs"
      using name by simp
    ultimately show ?thesis by simp
  qed
qed

lemma normalizeSegs_id:
  "\<forall>s \<in> set xs. proper_segment s \<Longrightarrow> normalizeSegs a res xs = rev res @ xs"
  by (induction xs arbitrary: res) (auto simp: proper_segment_def)

lemma normalizeSegs_append:
  "normalizeSegs a res (xs @ ys) = normalizeSegs a (rev (normalizeSegs a res xs)) ys"
  by (induction xs arbitrary: res) auto

lemma join_segs_snoc: "ns \<noteq> [] \<Longrightarrow> join_segs (ns @ [s]) = join_segs ns @ slash # s"
  by (induction ns rule: join_segs.induct) auto

lemma join_segs_Nil_iff: "\<forall>s \<in> set ns. s \<noteq> [] \<Longrightarrow> join_segs ns = [] \<longleftrightarrow> ns = []"
  by (induction ns rule: join_segs.induct) auto

lemma join_segs_last_nonempty: "ns \<noteq> [] \<Longrightarrow> last ns \<noteq> [] \<Longrightarrow> join_segs ns \<noteq> []"
  by (induction ns rule: join_segs.induct) auto

lemma last_join_segs: "ns \<noteq> [] \<Longrightarrow> last ns \<noteq> [] \<Longrightarrow> last (join_segs ns) = last (last ns)"
proof (induction ns rule: join_segs.induct)
  case 1
  then show ?case by simp
next
  case (2 s)
  then show ?case by simp
next
  case (3 s t ss)
  then have "join_segs (t # ss) \<noteq> []" by (intro join_segs_last_nonempty) simp_all
  with 3 show ?case by simp
qed

lemma normalizeSegs_wrapped:
  assumes "\<forall>x \<in> set xs. proper_segment x"
  shows "normalizeSegs a [] ([] # xs @ [[]]) = xs"
proof -
  have "normalizeSegs a [] ([] # xs @ [[]]) = normalizeSegs a [] (xs @ [[]])" by simp
  also have "\<dots> = normalizeSegs a (rev (normalizeSegs a [] xs)) [[]]"
    by (rule normalizeSegs_append)
  also have "\<dots> = xs" by (simp add: normalizeSegs_id[OF assms])
  finally show ?thesis .
qed

lemma set_replace_leading_dots:
  "set (replace_leading_dots c) \<subseteq> insert underscore (set c)"
proof (cases c)
  case Nil
  then show ?thesis by (simp add: replace_leading_dots_def)
next
  case (Cons x xs)
  have "set (dropWhile (\<lambda>d. d = dot) xs) \<subseteq> set xs" by (auto dest: set_dropWhileD)
  then show ?thesis using Cons by (auto simp: replace_leading_dots_def)
qed

text \<open>The data directory of an absolute working directory.\<close>

lemma DATA_DIR_shape:
  assumes "isAbsolute cwd"
  shows "\<exists>ns. (\<forall>s \<in> set ns. proper_segment s) \<and> ns \<noteq> [] \<and> DATA_DIR cwd = slash # join_segs ns"
proof -
  let ?r = "normalizeSegs False [] (segments [] cwd)"
  have cwd: "cwd \<noteq> []" using assms by (auto simp: isAbsolute_def)
  have data: "proper_segment (js ''data'')" "\<not> isAbsolute (js ''data'')" "js ''data'' \<noteq> []"
    by (simp_all add: proper_segment_def js_def isAbsolute_def)
  have rf: "resolve_from (rev [cwd, js ''data''] @ [cwd]) []
            = (cwd @ slash # js ''data'' @ [slash], True)"
    using assms cwd data(2,3) by simp
  have dd: "DATA_DIR cwd = slash # normalizeString (cwd @ slash # js ''data'' @ [slash]) False"
    unfolding DATA_DIR_def resolve_def rf by simp
  have r: "\<forall>s \<in> set ?r. proper_segment s"
  proof (rule normalizeSegs_proper)
    show "\<forall>s \<in> set []. proper_segment s" by simp
    show "\<forall>s \<in> set (segments [] cwd). slash \<notin> set s" by (rule segments_slash_free) simp
  qed
  have seg: "segments [] (cwd @ slash # js ''data'' @ [slash])
             = segments [] cwd @ [js ''data'', []]"
    using data(1) by (simp add: segments_append_slash segments_no_slash proper_segment_def)
  have "normalizeSegs False [] (segments [] cwd @ [js ''data'', []])
          = normalizeSegs False (rev ?r) [js ''data'', []]"
    by (rule normalizeSegs_append)
  also have "\<dots> = ?r @ [js ''data'']"
    using data(1) by (simp add: proper_segment_def)
  finally have "DATA_DIR cwd = slash # join_segs (?r @ [js ''data''])"
    by (simp add: dd normalizeString_def seg)
  moreover have "\<forall>s \<in> set (?r @ [js ''data'']). proper_segment s"
    using r data(1) by auto
  ultimately show ?thesis by blast
qed

text \<open>A sanitized name is a proper segment: it has no separator and, since a leading
  run of dots has been replaced, it is neither \<^verbatim>\<open>.\<close> nor \<^verbatim>\<open>..\<close>.\<close>

lemma sanitizeFilename_proper:
  assumes "sanitizeFilename f = Inr s"
  shows "proper_segment s"
proof -
  let ?c = "replace_control (replace_separators (remove_nul f))"
  have s: "s = take 255 (replace_chain f)" "s \<noteq> []"
    using assms by (auto simp: sanitizeFilename_def Let_def split: if_splits)
  have c: "slash \<notin> set ?c"
    by (auto simp: replace_control_def replace_separators_def)
  have "set (replace_leading_dots ?c) \<subseteq> insert underscore (set ?c)"
    by (rule set_replace_leading_dots)
  then have "slash \<notin> set (replace_chain f)" using c by (auto simp: replace_chain_def)
  then have ns: "slash \<notin> set s" unfolding s(1) by (auto dest: in_set_takeD)
  have "replace_chain f \<noteq> []" using s by auto
  then have "hd (replace_chain f) \<noteq> dot"
    by (auto simp: replace_chain_def replace_leading_dots_def split: list.splits)
  then have "hd s \<noteq> dot" using s by (cases "replace_chain f") auto
  then show ?thesis using s(2) ns by (cases s) (auto simp: proper_segment_def)
qed

text \<open>For a name that passes the sanitizer, \<^verbatim>\<open>getSafeDataPath\<close> returns the data directory
  followed by a separator and the sanitized name.\<close>

lemma getSafeDataPath_child:
  assumes abs: "isAbsolute cwd" and san: "sanitizeFilename f = Inr s"
  shows "getSafeDataPath cwd f = Inr (DATA_DIR cwd @ slash # s)"
proof -
  from DATA_DIR_shape[OF abs] obtain ns where
    ns: "\<forall>s \<in> set ns. proper_segment s" "ns \<noteq> []" and dd: "DATA_DIR cwd = slash # join_segs ns"
    by blast
  have ps: "proper_segment s" using san by (rule sanitizeFilename_proper)
  then have s: "s \<noteq> []" "slash \<notin> set s" by (simp_all add: proper_segment_def)
  have all: "\<forall>x \<in> set (ns @ [s]). proper_segment x" using ns ps by auto
  have nsl: "\<forall>x \<in> set (ns @ [s]). slash \<notin> set x" using all by (auto simp: proper_segment_def)
  have nne: "\<forall>x \<in> set (ns @ [s]). x \<noteq> []" using all by (auto simp: proper_segment_def)
  have snoc: "join_segs (ns @ [s]) = join_segs ns @ slash # s" using ns(2) by (rule join_segs_snoc)
  have jne: "join_segs (ns @ [s]) \<noteq> []" using join_segs_Nil_iff[OF nne] by simp
  let ?full = "slash # join_segs (ns @ [s])"
  have segs: "segments [] (join_segs (ns @ [s])) = ns @ [s]"
    using segments_join_segs[OF _ nsl] by simp
  have norm1: "normalizeString ?full False = join_segs (ns @ [s])"
    by (simp add: normalizeString_def segs normalizeSegs_id[OF all])
  have "last (slash # join_segs (ns @ [s])) = last s"
    using last_join_segs[of "ns @ [s]"] s jne by simp
  moreover have "last s \<in> set s" using s(1) by simp
  ultimately have last: "last ?full \<noteq> slash" using s(2) by auto
  have "normalize ?full = ?full"
    using last jne by (simp add: normalize_def isAbsolute_def norm1 Let_def)
  then have join: "join [DATA_DIR cwd, s] = ?full"
    using s by (simp add: join_def dd snoc)
  have "segments [] (?full @ [slash]) = [] # (ns @ [s]) @ [[]]"
    using segments_append_slash[of "[]" "join_segs (ns @ [s])" "[]"] segs by simp
  then have norm2: "normalizeString (?full @ [slash]) False = join_segs (ns @ [s])"
    unfolding normalizeString_def by (simp only: normalizeSegs_wrapped[OF all])
  have res: "resolve cwd [?full] = ?full"
    using norm2 by (simp add: resolve_def isAbsolute_def)
  have "?full = DATA_DIR cwd @ slash # s" by (simp add: dd snoc)
  then show ?thesis
    using san join res by (simp add: getSafeDataPath_def Let_def)
qed

text \<open>
  \<^bold>\<open>C1\<close>. For every raw string (with or without \<^verbatim>\<open>../\<close>, \<^verbatim>\<open>/\<close>, \<^verbatim>\<open>\\<close> or NUL
  characters), \<^verbatim>\<open>getSafeDataPath\<close>, run in a process whose working directory is an
  absolute path, either throws or returns a path strictly below the data directory: the
  data directory, a separator, and one proper segment. It never returns a path outside
  the data directory. The witness is the scenario of the specification,
  \<^verbatim>\<open>../../etc/passwd\<close>.
\<close>

theorem getSafeDataPath_confined:
  assumes "isAbsolute cwd" and "getSafeDataPath cwd raw = Inr p"
  shows "is_descendant (DATA_DIR cwd) p \<and>
         (\<exists>s. proper_segment s \<and> p = DATA_DIR cwd @ slash # s)"
proof -
  from assms(2) obtain s where san: "sanitizeFilename raw = Inr s"
    by (auto simp: getSafeDataPath_def split: sum.splits)
  have p: "p = DATA_DIR cwd @ slash # s"
    using getSafeDataPath_child[OF assms(1) san] assms(2) by simp
  have ps: "proper_segment s" using san by (rule sanitizeFilename_proper)
  then have "s \<noteq> []" by (simp add: proper_segment_def)
  then have "is_descendant (DATA_DIR cwd) p" by (cases s) (simp_all add: is_descendant_def p)
  with ps p show ?thesis by blast
qed


theorem getSafeDataPath_confined_witness:
  "isAbsolute (js ''/app'') \<and>
   getSafeDataPath (js ''/app'') (js ''../../etc/passwd'') = Inr (js ''/app/data/__.._etc_passwd'') \<and>
   is_descendant (DATA_DIR (js ''/app'')) (js ''/app/data/__.._etc_passwd'')"
proof -
  have a: "isAbsolute (js ''/app'')" by (simp add: js_def isAbsolute_def)
  have san: "sanitizeFilename (js ''../../etc/passwd'') = Inr (js ''__.._etc_passwd'')"
    by (simp add: sanitizeFilename_def js_def replace_chain_def remove_nul_def
        replace_separators_def replace_control_def is_control_def replace_leading_dots_def)
  have dd: "DATA_DIR (js ''/app'') = js ''/app/data''"
    by (simp add: DATA_DIR_def resolve_def normalizeString_def js_def isAbsolute_def)
  have g: "getSafeDataPath (js ''/app'') (js ''../../etc/passwd'')
             = Inr (js ''/app/data/__.._etc_passwd'')"
    using getSafeDataPath_child[OF a san] dd by (simp add: js_def)
  from getSafeDataPath_confined[OF a g] a g show ?thesis by simp
qed

section \<open>Properties of the filename sanitizer and the message validator\<close>

text \<open>The replacement chain yields the empty string only for an input made of NUL
  characters (or empty): every step but the first keeps at least one character.\<close>

lemma replace_leading_dots_Nil_iff: "replace_leading_dots s = [] \<longleftrightarrow> s = []"
  by (simp add: replace_leading_dots_def split: list.splits)

lemma replace_chain_Nil_iff: "replace_chain s = [] \<longleftrightarrow> remove_nul s = []"
  by (simp add: replace_chain_def replace_leading_dots_Nil_iff replace_control_def
      replace_separators_def)

lemma remove_nul_Nil: "remove_nul [] = []"
  by (simp add: remove_nul_def)

text \<open>
  \<^bold>\<open>C8\<close> as stated says that an input longer than the ceiling of 255 is rejected. The
  source truncates instead (\<^verbatim>\<open>sanitized.slice(0, 255)\<close>): 256 letters \<^verbatim>\<open>a\<close> are
  accepted and the key is the first 255 of them.
\<close>

theorem sanitizeFilename_long_counterexample:
  "sanitizeFilename (replicate 256 0x61) = Inr (replicate 255 0x61)"
proof -
  have r: "replicate 256 (0x61::jschar) = 0x61 # replicate 255 0x61"
    by (simp flip: replicate_Suc)
  have "replace_control (replace_separators (remove_nul (replicate 256 0x61)))
          = replicate 256 0x61"
    by (simp add: remove_nul_def replace_separators_def replace_control_def is_control_def)
  moreover have "replace_leading_dots (replicate 256 0x61) = replicate 256 0x61"
    unfolding r by (simp add: replace_leading_dots_def)
  ultimately have "replace_chain (replicate 256 0x61) = replicate 256 0x61"
    by (simp add: replace_chain_def)
  then show ?thesis
    by (simp add: sanitizeFilename_def)
qed

text \<open>
  \<^bold>\<open>C8\<close>, amended. \<^verbatim>\<open>sanitizeFilename\<close> fails exactly for the inputs that are empty
  or become empty after stripping, which are the inputs without any character other than
  NUL. Every other input is accepted, whatever its length, and the key is the sanitized
  text cut to its first 255 code units.
\<close>

theorem sanitizeFilename_fails_iff:
  "(isl (sanitizeFilename s) \<longleftrightarrow> remove_nul s = []) \<and>
   (remove_nul s \<noteq> [] \<longrightarrow> sanitizeFilename s = Inr (take 255 (replace_chain s)))"
proof (cases "remove_nul s = []")
  case True
  then show ?thesis
    by (simp add: sanitizeFilename_def replace_chain_Nil_iff Let_def)
next
  case False
  then have "s \<noteq> []" by (auto simp: remove_nul_def)
  moreover have "replace_chain s \<noteq> []" using False by (simp add: replace_chain_Nil_iff)
  ultimately show ?thesis using False
    by (simp add: sanitizeFilename_def Let_def)
qed

theorem sanitizeFilename_fails_iff_witness:
  "remove_nul (js ''../../etc/passwd'') \<noteq> [] \<and>
   sanitizeFilename (js ''../../etc/passwd'') = Inr (js ''__.._etc_passwd'')"
  using sanitizeFilename_fails_iff[of "js ''../../etc/passwd''"]
  by (simp add: js_def replace_chain_def remove_nul_def replace_separators_def
      replace_control_def is_control_def replace_leading_dots_def)

text \<open>A run of white space in front of a visible character collapses to one space.\<close>

lemma collapse_ws_run:
  assumes "isWhiteSpace w" and "\<not> isWhiteSpace x"
  shows "collapse_ws (replicate (Suc n) w @ x # xs) = 0x20 # collapse_ws (x # xs)"
proof -
  have "dropWhile isWhiteSpace (replicate n w @ x # xs) = x # xs"
    using assms by (induction n) auto
  then show ?thesis using assms(1) by simp
qed

text \<open>
  \<^bold>\<open>C9\<close> as stated applies the ceiling of 4000 to the normalized content. The source
  compares \<^verbatim>\<open>input.length\<close> before it normalizes: 4001 spaces followed by \<^verbatim>\<open>a\<close>
  normalize to the one character \<^verbatim>\<open>a\<close>, and the input is rejected as too long.
\<close>

theorem validateMessageContent_raw_length_counterexample:
  "validateMessageContent (replicate 4001 0x20 @ [0x61]) = Inl (ValidationError ''Message too long'')
   \<and> trim (collapse_ws (replicate 4001 0x20 @ [0x61])) = [0x61]"
proof -
  have ws: "isWhiteSpace 0x20" and nws: "\<not> isWhiteSpace 0x61"
    by (simp_all add: isWhiteSpace_def)
  have "collapse_ws (replicate (Suc 4000) 0x20 @ 0x61 # []) = 0x20 # collapse_ws (0x61 # [])"
    using ws nws by (rule collapse_ws_run)
  then have "collapse_ws (replicate 4001 0x20 @ [0x61]) = [0x20, 0x61]"
    using nws by simp
  then have "trim (collapse_ws (replicate 4001 0x20 @ [0x61])) = [0x61]"
    using ws nws by (simp add: trim_def)
  moreover have "validateMessageContent (replicate 4001 0x20 @ [0x61])
                   = Inl (ValidationError ''Message too long'')"
    by (simp add: validateMessageContent_def MAX_MESSAGE_LENGTH_def)
  ultimately show ?thesis by simp
qed

text \<open>
  \<^bold>\<open>C9\<close>, amended. \<^verbatim>\<open>validateMessageContent\<close> accepts an input exactly when the raw
  input has at most 4000 code units and its content after white-space normalization
  (runs collapsed, ends trimmed) is not empty.
\<close>

theorem validateMessageContent_accepts_iff:
  "(\<not> isl (validateMessageContent s)) = (length s \<le> 4000 \<and> trim (collapse_ws s) \<noteq> [])"
  by (auto simp: validateMessageContent_def MAX_MESSAGE_LENGTH_def Let_def trim_def)

theorem validateMessageContent_accepts_iff_witness:
  "\<not> isl (validateMessageContent (js '' a  b ''))
   \<and> isl (validateMessageContent (js ''   ''))"
  using validateMessageContent_accepts_iff[of "js '' a  b ''"]
        validateMessageContent_accepts_iff[of "js ''   ''"]
  by (simp add: js_def trim_def isWhiteSpace_def)

section \<open>Properties of the document store\<close>

text \<open>The shared \<^verbatim>\<open>catch\<close> block answers \<^verbatim>\<open>null\<close> for one error only, and the only place
  that error can come from is \<^verbatim>\<open>readFile\<close> failing with the code \<^verbatim>\<open>ENOENT\<close>: neither the
  empty-file check, nor \<^verbatim>\<open>JSON.parse\<close>, nor the structural check produces it.\<close>

lemma catch_read_None_iff: "catch_read r = Inr None \<longleftrightarrow> r = Inl (SystemError ENOENT)"
  by (auto simp: catch_read_def split: sum.splits)

lemma channel_invalid_not_ENOENT: "channel_invalid v \<noteq> Inl (SystemError ENOENT)"
  by (auto simp: channel_invalid_def member_def split: json.splits sum.splits)

lemma config_invalid_not_ENOENT: "config_invalid v \<noteq> Inl (SystemError ENOENT)"
  by (auto simp: config_invalid_def member_def split: json.splits sum.splits)

lemma read_channel_try_ENOENT_iff:
  "fst (read_channel_try st p) = Inl (SystemError ENOENT) \<longleftrightarrow> fst (readFile st p) = Inl ENOENT"
proof -
  obtain r st1 where rd: "readFile st p = (r, st1)" by (cases "readFile st p")
  show ?thesis
  proof (cases r)
    case (Inl code)
    with rd show ?thesis by (simp add: read_channel_try_def)
  next
    case (Inr d)
    show ?thesis
    proof (cases d)
      case (Json v)
      then show ?thesis using rd Inr channel_invalid_not_ENOENT[of v]
        by (cases "channel_invalid v")
           (auto simp: read_channel_try_def JSON_parse_def split: bool.splits)
    qed (use rd Inr in \<open>simp_all add: read_channel_try_def JSON_parse_def\<close>)
  qed
qed

lemma read_config_try_ENOENT_iff:
  "fst (read_config_try st p) = Inl (SystemError ENOENT) \<longleftrightarrow> fst (readFile st p) = Inl ENOENT"
proof -
  obtain r st1 where rd: "readFile st p = (r, st1)" by (cases "readFile st p")
  show ?thesis
  proof (cases r)
    case (Inl code)
    with rd show ?thesis by (simp add: read_config_try_def)
  next
    case (Inr d)
    show ?thesis
    proof (cases d)
      case (Json v)
      then show ?thesis using rd Inr config_invalid_not_ENOENT[of v]
        by (cases "config_invalid v")
           (auto simp: read_config_try_def JSON_parse_def split: bool.splits)
    qed (use rd Inr in \<open>simp_all add: read_config_try_def JSON_parse_def\<close>)
  qed
qed

lemma getChannelInfo_null_iff:
  "fst (getChannelInfo cwd st f) = Inr None \<longleftrightarrow>
     (\<exists>p. getSafeDataPath cwd f = Inr p \<and> fst (readFile st p) = Inl ENOENT)"
proof (cases "getSafeDataPath cwd f")
  case (Inl e)
  then show ?thesis by (simp add: getChannelInfo_def)
next
  case (Inr p)
  then show ?thesis
    using read_channel_try_ENOENT_iff[of st p]
    by (simp add: getChannelInfo_def catch_read_None_iff case_prod_beta)
qed

lemma getUserConfig_null_iff:
  "fst (getUserConfig cwd st f) = Inr None \<longleftrightarrow>
     (\<exists>p. getSafeDataPath cwd f = Inr p \<and> fst (readFile st p) = Inl ENOENT)"
proof (cases "getSafeDataPath cwd f")
  case (Inl e)
  then show ?thesis by (simp add: getUserConfig_def)
next
  case (Inr p)
  then show ?thesis
    using read_config_try_ENOENT_iff[of st p]
    by (simp add: getUserConfig_def catch_read_None_iff case_prod_beta)
qed

lemma getServerConfig_null_iff:
  "fst (getServerConfig cwd st f) = Inr None \<longleftrightarrow>
     (\<exists>p. getSafeDataPath cwd f = Inr p \<and> fst (readFile st p) = Inl ENOENT)"
proof (cases "getSafeDataPath cwd f")
  case (Inl e)
  then show ?thesis by (simp add: getServerConfig_def)
next
  case (Inr p)
  then show ?thesis
    using read_config_try_ENOENT_iff[of st p]
    by (simp add: getServerConfig_def catch_read_None_iff case_prod_beta)
qed

text \<open>A file that is present but blank, or whose document lacks a required member, makes
  the readers throw.\<close>

lemma getChannelInfo_blank:
  "getSafeDataPath cwd f = Inr p \<Longrightarrow> fst (readFile st p) = Inr Blank \<Longrightarrow>
   fst (getChannelInfo cwd st f) = Inl (FailedToRead FileIsEmpty)"
  by (cases "readFile st p")
     (simp add: getChannelInfo_def read_channel_try_def catch_read_def)

lemma getChannelInfo_incomplete:
  "getSafeDataPath cwd f = Inr p \<Longrightarrow> fst (readFile st p) = Inr (Json (JObj kvs)) \<Longrightarrow>
   map_of kvs (js ''id'') = None \<or> map_of kvs (js ''messages'') = None \<Longrightarrow>
   fst (getChannelInfo cwd st f) = Inl (FailedToRead InvalidStructure)"
  by (cases "readFile st p")
     (auto simp: getChannelInfo_def read_channel_try_def catch_read_def
      JSON_parse_def channel_invalid_def member_def)

lemma getConfig_blank:
  "getSafeDataPath cwd f = Inr p \<Longrightarrow> fst (readFile st p) = Inr Blank \<Longrightarrow>
   fst (getUserConfig cwd st f) = Inl (FailedToRead FileIsEmpty) \<and>
   fst (getServerConfig cwd st f) = Inl (FailedToRead FileIsEmpty)"
  by (cases "readFile st p")
     (simp add: getUserConfig_def getServerConfig_def read_config_try_def catch_read_def)

lemma getConfig_incomplete:
  "getSafeDataPath cwd f = Inr p \<Longrightarrow> fst (readFile st p) = Inr (Json (JObj kvs)) \<Longrightarrow>
   map_of kvs (js ''name'') = None \<or> map_of kvs (js ''options'') = None \<Longrightarrow>
   fst (getUserConfig cwd st f) = Inl (FailedToRead InvalidStructure) \<and>
   fst (getServerConfig cwd st f) = Inl (FailedToRead InvalidStructure)"
  by (cases "readFile st p")
     (auto simp: getUserConfig_def getServerConfig_def read_config_try_def
      catch_read_def JSON_parse_def config_invalid_def member_def)

text \<open>
  \<^bold>\<open>C3\<close>. For every filename and every state of the file system, \<^verbatim>\<open>getChannelInfo\<close>,
  \<^verbatim>\<open>getUserConfig\<close> and \<^verbatim>\<open>getServerConfig\<close> return \<^verbatim>\<open>null\<close> exactly when the filename
  resolves to a path and \<^verbatim>\<open>readFile\<close> reports for it that the file is missing
  (\<^verbatim>\<open>ENOENT\<close>); every other failure of \<^verbatim>\<open>readFile\<close> (\<^verbatim>\<open>ENOTDIR\<close>, \<^verbatim>\<open>ENAMETOOLONG\<close>,
  \<^verbatim>\<open>EISDIR\<close>, a denied call) is thrown. When the file is read and is blank they throw the
  empty-file error, and when it holds a document without \<^verbatim>\<open>id\<close> or \<^verbatim>\<open>messages\<close>
  (conversation) or without \<^verbatim>\<open>name\<close> or \<^verbatim>\<open>options\<close> (configuration), such as
  \<^verbatim>\<open>{}\<close>, they throw the invalid-structure error; in neither case do they return
  \<^verbatim>\<open>null\<close> or a record. The examples after it: a missing file in the data directory
  gives \<^verbatim>\<open>null\<close>; a missing file below a regular file named \<^verbatim>\<open>data\<close> does not.
\<close>

theorem readers_null_only_when_missing:
  "(fst (getChannelInfo cwd st f) = Inr None \<longleftrightarrow>
      (\<exists>p. getSafeDataPath cwd f = Inr p \<and> fst (readFile st p) = Inl ENOENT)) \<and>
   (fst (getUserConfig cwd st f) = Inr None \<longleftrightarrow>
      (\<exists>p. getSafeDataPath cwd f = Inr p \<and> fst (readFile st p) = Inl ENOENT)) \<and>
   (fst (getServerConfig cwd st f) = Inr None \<longleftrightarrow>
      (\<exists>p. getSafeDataPath cwd f = Inr p \<and> fst (readFile st p) = Inl ENOENT)) \<and>
   (getSafeDataPath cwd f = Inr p \<and> fst (readFile st p) = Inr Blank \<longrightarrow>
      fst (getChannelInfo cwd st f) = Inl (FailedToRead FileIsEmpty) \<and>
      fst (getUserConfig cwd st f) = Inl (FailedToRead FileIsEmpty) \<and>
      fst (getServerConfig cwd st f) = Inl (FailedToRead FileIsEmpty)) \<and>
   (getSafeDataPath cwd f = Inr p \<and> fst (readFile st p) = Inr (Json (JObj kvs)) \<and>
    (map_of kvs (js ''id'') = None \<or> map_of kvs (js ''messages'') = None) \<longrightarrow>
      fst (getChannelInfo cwd st f) = Inl (FailedToRead InvalidStructure)) \<and>
   (getSafeDataPath cwd f = Inr p \<and> fst (readFile st p) = Inr (Json (JObj kvs)) \<and>
    (map_of kvs (js ''name'') = None \<or> map_of kvs (js ''options'') = None) \<longrightarrow>
      fst (getUserConfig cwd st f) = Inl (FailedToRead InvalidStructure) \<and>
      fst (getServerConfig cwd st f) = Inl (FailedToRead InvalidStructure))"
  using getChannelInfo_null_iff[of cwd st f] getUserConfig_null_iff[of cwd st f]
    getServerConfig_null_iff[of cwd st f] getChannelInfo_blank[of cwd f p st]
    getConfig_blank[of cwd f p st] getChannelInfo_incomplete[of cwd f p st kvs]
    getConfig_incomplete[of cwd f p st kvs]
  by blast

text \<open>Concrete paths for the examples: a process started in \<^verbatim>\<open>/app\<close>.\<close>

lemmas sanitize_defs = sanitizeFilename_def replace_chain_def remove_nul_def
  replace_separators_def replace_control_def is_control_def replace_leading_dots_def

lemmas fs_defs = readFile_def writeFile_def rename_def mkdir_def locate_def parent_dir_def
  entry_def components_def child_def node_at_def NAME_MAX_def PATH_MAX_def no_denial_def

lemma isAbsolute_app: "isAbsolute (js ''/app'')"
  by (simp add: js_def isAbsolute_def)

lemma DATA_DIR_app: "DATA_DIR (js ''/app'') = js ''/app/data''"
  by (simp add: DATA_DIR_def resolve_def normalizeString_def js_def isAbsolute_def)

lemma getSafeDataPath_app:
  "sanitizeFilename f = Inr s \<Longrightarrow> getSafeDataPath (js ''/app'') f = Inr (js ''/app/data/'' @ s)"
  using getSafeDataPath_child[OF isAbsolute_app, of f s] DATA_DIR_app by (simp add: js_def)

lemma chat_json_path:
  "getSafeDataPath (js ''/app'') (js ''chat.json'') = Inr (js ''/app/data/chat.json'')"
proof -
  have "sanitizeFilename (js ''chat.json'') = Inr (js ''chat.json'')"
    by (simp add: sanitize_defs js_def)
  then show ?thesis using getSafeDataPath_app by (simp add: js_def)
qed

theorem readers_null_only_when_missing_witness:
  "getSafeDataPath (js ''/app'') (js ''chat.json'') = Inr (js ''/app/data/chat.json'') \<and>
   fst (getChannelInfo (js ''/app'')
          \<lparr>files = [js ''/app'' \<mapsto> Dir, js ''/app/data'' \<mapsto> Dir],
            denied = no_denial, trace = []\<rparr>
          (js ''chat.json'')) = Inr None \<and>
   fst (getChannelInfo (js ''/app'')
          \<lparr>files = [js ''/app'' \<mapsto> Dir, js ''/app/data'' \<mapsto> File Blank],
            denied = no_denial, trace = []\<rparr>
          (js ''chat.json'')) \<noteq> Inr None \<and>
   fst (getChannelInfo (js ''/app'')
          \<lparr>files = [js ''/app'' \<mapsto> Dir, js ''/app/data'' \<mapsto> Dir,
                     js ''/app/data/chat.json'' \<mapsto> File (Json (JObj []))],
            denied = no_denial, trace = []\<rparr>
          (js ''chat.json'')) = Inl (FailedToRead InvalidStructure) \<and>
   fst (getUserConfig (js ''/app'')
          \<lparr>files = [js ''/app'' \<mapsto> Dir, js ''/app/data'' \<mapsto> Dir,
                     js ''/app/data/chat.json'' \<mapsto> File (Json (JObj []))],
            denied = no_denial, trace = []\<rparr>
          (js ''chat.json'')) = Inl (FailedToRead InvalidStructure) \<and>
   fst (getServerConfig (js ''/app'')
          \<lparr>files = [js ''/app'' \<mapsto> Dir, js ''/app/data'' \<mapsto> Dir,
                     js ''/app/data/chat.json'' \<mapsto> File Blank],
            denied = no_denial, trace = []\<rparr>
          (js ''chat.json'')) = Inl (FailedToRead FileIsEmpty)"
proof -
  let ?p = "js ''/app/data/chat.json''"
  let ?missing = "\<lparr>files = [js ''/app'' \<mapsto> Dir, js ''/app/data'' \<mapsto> Dir],
                   denied = no_denial, trace = []\<rparr>"
  let ?notdir = "\<lparr>files = [js ''/app'' \<mapsto> Dir, js ''/app/data'' \<mapsto> File Blank],
                  denied = no_denial, trace = []\<rparr>"
  let ?empty_doc = "\<lparr>files = [js ''/app'' \<mapsto> Dir, js ''/app/data'' \<mapsto> Dir,
                              ?p \<mapsto> File (Json (JObj []))],
                     denied = no_denial, trace = []\<rparr>"
  let ?blank = "\<lparr>files = [js ''/app'' \<mapsto> Dir, js ''/app/data'' \<mapsto> Dir, ?p \<mapsto> File Blank],
                 denied = no_denial, trace = []\<rparr>"
  have r1: "fst (readFile ?missing ?p) = Inl ENOENT" by (simp add: fs_defs js_def)
  have r2: "fst (readFile ?notdir ?p) = Inl ENOTDIR" by (simp add: fs_defs js_def)
  have r3: "fst (readFile ?empty_doc ?p) = Inr (Json (JObj []))" by (simp add: fs_defs js_def)
  have r4: "fst (readFile ?blank ?p) = Inr Blank" by (simp add: fs_defs js_def)
  show ?thesis
    using chat_json_path r1 r2 r3 r4
      readers_null_only_when_missing[of "js ''/app''" ?missing "js ''chat.json''"]
      readers_null_only_when_missing[of "js ''/app''" ?notdir "js ''chat.json''"]
      readers_null_only_when_missing[of "js ''/app''" ?empty_doc "js ''chat.json''" ?p "[]"]
      readers_null_only_when_missing[of "js ''/app''" ?blank "js ''chat.json''" ?p]
    by simp
qed


text \<open>The walk through the directories ends in a key that extends the one it started
  from, and it looks at no key longer than the one it ends in: changing longer keys does
  not change it.\<close>

lemma walk_dirs_length: "walk_dirs fs cur cs = Inr dir \<Longrightarrow> length cur \<le> length dir"
proof (induction cs arbitrary: cur)
  case Nil
  then show ?case by simp
next
  case (Cons c cs)
  from Cons.prems have "walk_dirs fs (child cur c) cs = Inr dir"
    by (auto split: if_splits option.splits node.splits)
  then have "length (child cur c) \<le> length dir" by (rule Cons.IH)
  then show ?case by (simp add: child_def)
qed

lemma walk_dirs_stable:
  assumes "walk_dirs fs cur cs = Inr dir"
    and "\<And>k. length k \<le> length dir \<Longrightarrow> fs' k = fs k"
  shows "walk_dirs fs' cur cs = Inr dir"
  using assms(1)
proof (induction cs arbitrary: cur)
  case Nil
  then show ?case by simp
next
  case (Cons c cs)
  from Cons.prems have ok: "\<not> NAME_MAX < utf8_length c" and d: "fs (child cur c) = Some Dir"
    and rest: "walk_dirs fs (child cur c) cs = Inr dir"
    by (auto split: if_splits option.splits node.splits)
  have "length (child cur c) \<le> length dir" using rest by (rule walk_dirs_length)
  then have "fs' (child cur c) = Some Dir" using d assms(2) by simp
  moreover have "walk_dirs fs' (child cur c) cs = Inr dir" using rest by (rule Cons.IH)
  ultimately show ?case using ok by simp
qed

lemma child_longer: "length dir < length (child dir c)"
  by (simp add: child_def)

text \<open>What a successful read says about the tree, and what the calls leave of the
  refusals and of the trace.\<close>

lemma readFile_Inr_iff:
  assumes "components p = C @ [s]"
  shows "fst (readFile st p) = Inr d \<longleftrightarrow>
           denied st (ReadFile p) = None \<and> utf8_length p < PATH_MAX \<and>
           (\<exists>dir. walk_dirs (files st) [] C = Inr dir \<and> utf8_length s \<le> NAME_MAX \<and>
                  files st (child dir s) = Some (File d))"
  using assms
  by (auto simp: readFile_def locate_def parent_dir_def entry_def node_at_def child_def
      split: option.splits sum.splits node.splits)

lemma readFile_denied [simp]: "denied (snd (readFile st p)) = denied st"
  by (simp add: readFile_def)

lemma readFile_files [simp]: "files (snd (readFile st p)) = files st"
  by (simp add: readFile_def)

lemma writeFile_denied [simp]: "denied (snd (writeFile st p d)) = denied st"
  by (simp add: writeFile_def Let_def split: option.splits sum.splits)

lemma rename_denied [simp]: "denied (snd (rename st a b)) = denied st"
  by (simp add: rename_def Let_def split: option.splits sum.splits)

text \<open>
  Writing and renaming below a directory that the walk reaches. A write fails without
  changing a file, and with \<^verbatim>\<open>ENOENT\<close> only if it is refused with that code; a rename of
  an existing regular file over a sibling that is not a directory fails only if the
  call is refused.
\<close>

lemma writeFile_cases:
  assumes "components q = C @ [c]" and "walk_dirs (files st) [] C = Inr dir"
    and "denied st (WriteFile q d) \<noteq> Some ENOENT"
  shows "(\<exists>e. fst (writeFile st q d) = Inl e \<and> e \<noteq> ENOENT \<and>
              files (snd (writeFile st q d)) = files st) \<or>
         (fst (writeFile st q d) = Inr () \<and> utf8_length q < PATH_MAX \<and>
          utf8_length c \<le> NAME_MAX \<and>
          files (snd (writeFile st q d)) = (files st)(child dir c \<mapsto> File d))"
  using assms
  by (auto simp: writeFile_def locate_def parent_dir_def entry_def Let_def
      split: option.splits sum.splits)

lemma rename_cases:
  assumes "components old = C @ [a]" and "components new = C @ [b]"
    and "walk_dirs (files st) [] C = Inr dir"
    and "utf8_length old < PATH_MAX" and "utf8_length new < PATH_MAX"
    and "utf8_length a \<le> NAME_MAX" and "utf8_length b \<le> NAME_MAX"
    and "files st (child dir a) = Some (File d)"
    and "files st (child dir b) \<noteq> Some Dir"
    and "denied st (Rename old new) \<noteq> Some ENOENT"
  shows "(\<exists>e. fst (rename st old new) = Inl e \<and> e \<noteq> ENOENT \<and>
              files (snd (rename st old new)) = files st) \<or>
         (fst (rename st old new) = Inr () \<and>
          files (snd (rename st old new)) = (files st)(child dir a := None, child dir b \<mapsto> File d))"
  using assms
  by (auto simp: rename_def parent_dir_def entry_def Let_def
      split: option.splits sum.splits)


text \<open>The components of a path in the data directory and of its temporary sibling.\<close>

lemma data_path_components:
  assumes "slash \<notin> set s" and "s \<noteq> []"
  shows "components (D @ slash # s) = components D @ [s]"
  using assms by (simp add: components_def segments_append_slash segments_no_slash)

lemma tmp_slash_free: "slash \<notin> set (js ''.tmp'')"
  by (simp add: js_def)

text \<open>
  \<^verbatim>\<open>openConfig\<close> on a file that \<^verbatim>\<open>readFile\<close> reads as a document whose \<^verbatim>\<open>options\<close> is an
  object. Either the staged write and the rename go through, and the file then holds the
  document with the one option set; or one of them fails (a name too long for the
  temporary file, a directory in its place, a refused call), the error is thrown, and the
  file still holds the document it held. The \<^verbatim>\<open>catch\<close> block takes any error with the
  code \<^verbatim>\<open>ENOENT\<close> for a missing configuration file, so the two staged calls must not be
  refused with that very code; the tree itself cannot make them fail with it once the
  read has succeeded.
\<close>

lemma openConfig_update_outcomes:
  assumes abs: "isAbsolute cwd"
    and path: "getSafeDataPath cwd f = Inr p"
    and rd: "fst (readFile st p) = Inr (Json (JObj doc))"
    and opts: "map_of doc (js ''options'') = Some (JObj opts)"
    and wden: "\<forall>d. denied st (WriteFile (p @ js ''.tmp'') d) \<noteq> Some ENOENT"
    and rden: "denied st (Rename (p @ js ''.tmp'') p) \<noteq> Some ENOENT"
    and doc': "doc' = put doc (js ''options'')
                 (JObj (if key = js ''__proto__'' \<and> map_of opts key = None then opts
                        else put opts key (scalar_json v)))"
  shows "(fst (openConfig isS arr cwd st f key v) = Inr () \<and>
          fst (readFile (snd (openConfig isS arr cwd st f key v)) p) = Inr (Json (JObj doc'))) \<or>
         ((\<exists>e. fst (openConfig isS arr cwd st f key v)
                  = Inl (FailedToUpdateConfig (SystemError e))) \<and>
          fst (readFile (snd (openConfig isS arr cwd st f key v)) p) = Inr (Json (JObj doc)))"
proof -
  let ?t = "js ''.tmp''"
  let ?D = "DATA_DIR cwd"
  let ?C = "components ?D"
  let ?new = "Json (JObj doc')"
  from path obtain s where san: "sanitizeFilename f = Inr s"
    by (auto simp: getSafeDataPath_def split: sum.splits)
  have p: "p = ?D @ slash # s" using getSafeDataPath_child[OF abs san] path by simp
  have ps: "proper_segment s" using san by (rule sanitizeFilename_proper)
  then have s: "s \<noteq> []" "slash \<notin> set s" by (simp_all add: proper_segment_def)
  have cp: "components p = ?C @ [s]" unfolding p using s(2,1) by (rule data_path_components)
  have "components (?D @ slash # (s @ ?t)) = ?C @ [s @ ?t]"
    using s tmp_slash_free by (intro data_path_components) simp_all
  then have ct: "components (p @ ?t) = ?C @ [s @ ?t]" by (simp add: p)
  from rd readFile_Inr_iff[OF cp, of st "Json (JObj doc)"]
  obtain dir where nd: "denied st (ReadFile p) = None" and pm: "utf8_length p < PATH_MAX"
    and walk: "walk_dirs (files st) [] ?C = Inr dir" and nm: "utf8_length s \<le> NAME_MAX"
    and fl: "files st (child dir s) = Some (File (Json (JObj doc)))"
    by blast
  have neq: "child dir (s @ ?t) \<noteq> child dir s" by (simp add: child_def js_def)
  have reread: "fst (readFile st' p) = Inr x"
    if "denied st' = denied st" and "walk_dirs (files st') [] ?C = Inr dir"
      and "files st' (child dir s) = Some (File x)" for st' x
    using that nd pm nm readFile_Inr_iff[OF cp, of st' x] by auto
  obtain st1 where r: "readFile st p = (Inr (Json (JObj doc)), st1)"
    using rd by (cases "readFile st p") auto
  have st1: "files st1 = files st" "denied st1 = denied st"
    using readFile_files[of st p] readFile_denied[of st p] by (simp_all add: r)
  have u: "update_options arr (JObj doc) key v = Inr (JObj doc')"
    by (simp add: update_options_def opts assign_member_def doc')
  obtain w st2 where W: "writeFile st1 (p @ ?t) ?new = (w, st2)"
    by (cases "writeFile st1 (p @ ?t) ?new")
  have st2d: "denied st2 = denied st"
    using writeFile_denied[of st1 "p @ ?t" ?new] by (simp add: W st1)
  have walk1: "walk_dirs (files st1) [] ?C = Inr dir" using walk by (simp add: st1)
  have wden1: "denied st1 (WriteFile (p @ ?t) ?new) \<noteq> Some ENOENT"
    using wden by (simp add: st1)
  from writeFile_cases[OF ct walk1 wden1]
  consider (wfail) e where "w = Inl e" "e \<noteq> ENOENT" "files st2 = files st"
    | (wok) "w = Inr ()" "utf8_length (p @ ?t) < PATH_MAX" "utf8_length (s @ ?t) \<le> NAME_MAX"
        "files st2 = (files st)(child dir (s @ ?t) \<mapsto> File ?new)"
    by (auto simp: W st1)
  then show ?thesis
  proof cases
    case wfail
    have t: "openConfig_try arr st p key v = (Inl (SystemError e), st2)"
      by (simp add: openConfig_try_def r JSON_parse_def JSON_stringify_def u W wfail(1))
    have res: "openConfig isS arr cwd st f key v = (Inl (FailedToUpdateConfig (SystemError e)), st2)"
      using wfail(2) by (simp add: openConfig_def path t)
    have "fst (readFile st2 p) = Inr (Json (JObj doc))"
      using st2d walk fl by (intro reread) (simp_all add: wfail(3))
    then show ?thesis by (simp add: res)
  next
    case wok
    have walk2: "walk_dirs (files st2) [] ?C = Inr dir"
      using walk by (rule walk_dirs_stable) (use child_longer[of dir "s @ ?t"] in \<open>auto simp: wok(4)\<close>)
    have old2: "files st2 (child dir (s @ ?t)) = Some (File ?new)" by (simp add: wok(4))
    have new2: "files st2 (child dir s) = Some (File (Json (JObj doc)))"
      using neq fl by (simp add: wok(4))
    then have nodir: "files st2 (child dir s) \<noteq> Some Dir" by simp
    obtain x st3 where R: "rename st2 (p @ ?t) p = (x, st3)"
      by (cases "rename st2 (p @ ?t) p")
    have st3d: "denied st3 = denied st"
      using rename_denied[of st2 "p @ ?t" p] by (simp add: R st2d)
    have rden2: "denied st2 (Rename (p @ ?t) p) \<noteq> Some ENOENT"
      using rden by (simp add: st2d)
    from rename_cases[OF ct cp walk2 wok(2) pm wok(3) nm old2 nodir rden2]
    consider (rfail) e where "x = Inl e" "e \<noteq> ENOENT" "files st3 = files st2"
      | (rok) "x = Inr ()"
          "files st3 = (files st2)(child dir (s @ ?t) := None, child dir s \<mapsto> File ?new)"
      by (auto simp: R)
    then show ?thesis
    proof cases
      case rfail
      have t: "openConfig_try arr st p key v = (Inl (SystemError e), st3)"
        by (simp add: openConfig_try_def r JSON_parse_def JSON_stringify_def u W wok(1) R rfail(1))
      have res: "openConfig isS arr cwd st f key v
                   = (Inl (FailedToUpdateConfig (SystemError e)), st3)"
        using rfail(2) by (simp add: openConfig_def path t)
      have "fst (readFile st3 p) = Inr (Json (JObj doc))"
        using st3d walk2 new2 by (intro reread) (simp_all add: rfail(3))
      then show ?thesis by (simp add: res)
    next
      case rok
      have t: "openConfig_try arr st p key v = (Inr (), st3)"
        by (simp add: openConfig_try_def r JSON_parse_def JSON_stringify_def u W wok(1) R rok(1))
      have res: "openConfig isS arr cwd st f key v = (Inr (), st3)"
        by (simp add: openConfig_def path t)
      have walk3: "walk_dirs (files st3) [] ?C = Inr dir"
        using walk2
        by (rule walk_dirs_stable)
           (use child_longer[of dir "s @ ?t"] child_longer[of dir s] in \<open>auto simp: rok(2)\<close>)
      have "fst (readFile st3 p) = Inr ?new"
        using st3d walk3 by (intro reread) (simp_all add: rok(2))
      then show ?thesis by (simp add: res)
    qed
  qed
qed



text \<open>The path of the configuration file of the examples.\<close>

lemma alice_config_path:
  "getSafeDataPath (js ''/app'') (js ''alice-config.json'') = Inr (js ''/app/data/alice-config.json'')"
proof -
  have "sanitizeFilename (js ''alice-config.json'') = Inr (js ''alice-config.json'')"
    by (simp add: sanitize_defs js_def)
  then show ?thesis using getSafeDataPath_app by (simp add: js_def)
qed


text \<open>Every call is recorded, whatever its outcome.\<close>

lemma readFile_trace [simp]: "trace (snd (readFile st p)) = trace st @ [ReadFile p]"
  by (simp add: readFile_def)

lemma writeFile_trace [simp]: "trace (snd (writeFile st p d)) = trace st @ [WriteFile p d]"
  by (simp add: writeFile_def Let_def split: option.splits sum.splits)

lemma rename_trace [simp]: "trace (snd (rename st a b)) = trace st @ [Rename a b]"
  by (simp add: rename_def Let_def split: option.splits sum.splits)

lemma mkdir_trace [simp]: "trace (snd (mkdir st p)) = trace st @ [Mkdir p]"
  by (simp add: mkdir_def Let_def split: option.splits prod.splits)

text \<open>The savers of the chat history write nothing but the temporary file, whatever the
  outcome: their file operations are an initial part of \<^verbatim>\<open>mkdir\<close>, write of the
  temporary file, rename over the target. So is the update path of \<^verbatim>\<open>openConfig\<close>, with
  the read in place of \<^verbatim>\<open>mkdir\<close>.\<close>

lemma save_try_staged:
  "\<exists>ops. trace (snd (save_try st p j)) = trace st @ ops \<and>
         prefix ops [Mkdir (dirname p), WriteFile (p @ js ''.tmp'') (Json j),
                     Rename (p @ js ''.tmp'') p]"
proof -
  obtain m st1 where M: "mkdir st (dirname p) = (m, st1)" by (cases "mkdir st (dirname p)")
  obtain w st2 where W: "writeFile st1 (p @ js ''.tmp'') (Json j) = (w, st2)"
    by (cases "writeFile st1 (p @ js ''.tmp'') (Json j)")
  obtain r st3 where R: "rename st2 (p @ js ''.tmp'') p = (r, st3)"
    by (cases "rename st2 (p @ js ''.tmp'') p")
  have t1: "trace st1 = trace st @ [Mkdir (dirname p)]"
    using mkdir_trace[of st "dirname p"] by (simp add: M)
  have t2: "trace st2 = trace st1 @ [WriteFile (p @ js ''.tmp'') (Json j)]"
    using writeFile_trace[of st1 "p @ js ''.tmp''" "Json j"] by (simp add: W)
  have t3: "trace st3 = trace st2 @ [Rename (p @ js ''.tmp'') p]"
    using rename_trace[of st2 "p @ js ''.tmp''" p] by (simp add: R)
  show ?thesis
    by (cases m; cases w; cases r)
       (simp_all add: save_try_def M W R t1 t2 t3 JSON_stringify_def)
qed

lemma openConfig_try_staged:
  "\<exists>d ops. trace (snd (openConfig_try arr st p key v)) = trace st @ ops \<and>
           prefix ops [ReadFile p, WriteFile (p @ js ''.tmp'') d, Rename (p @ js ''.tmp'') p]"
proof -
  obtain x st1 where X: "readFile st p = (x, st1)" by (cases "readFile st p")
  have t1: "trace st1 = trace st @ [ReadFile p]" using readFile_trace[of st p] by (simp add: X)
  show ?thesis
  proof (cases "\<exists>data object object'. x = Inr data \<and> JSON_parse data = Inr object \<and>
                  update_options arr object key v = Inr object'")
    case False
    then have "trace (snd (openConfig_try arr st p key v)) = trace st @ [ReadFile p]"
      by (auto simp: openConfig_try_def X t1 split: sum.splits)
    then show ?thesis by (intro exI[of _ Blank] exI[of _ "[ReadFile p]"]) simp
  next
    case True
    then obtain data object object' where x: "x = Inr data" "JSON_parse data = Inr object"
      "update_options arr object key v = Inr object'" by blast
    let ?d = "Json object'"
    obtain w st2 where W: "writeFile st1 (p @ js ''.tmp'') ?d = (w, st2)"
      by (cases "writeFile st1 (p @ js ''.tmp'') ?d")
    obtain r st3 where R: "rename st2 (p @ js ''.tmp'') p = (r, st3)"
      by (cases "rename st2 (p @ js ''.tmp'') p")
    have t2: "trace st2 = trace st1 @ [WriteFile (p @ js ''.tmp'') ?d]"
      using writeFile_trace[of st1 "p @ js ''.tmp''" ?d] by (simp add: W)
    have t3: "trace st3 = trace st2 @ [Rename (p @ js ''.tmp'') p]"
      using rename_trace[of st2 "p @ js ''.tmp''" p] by (simp add: R)
    have "\<exists>ops. trace (snd (openConfig_try arr st p key v)) = trace st @ ops \<and>
           prefix ops [ReadFile p, WriteFile (p @ js ''.tmp'') ?d, Rename (p @ js ''.tmp'') p]"
      by (cases w; cases r)
         (simp_all add: openConfig_try_def X x W R t1 t2 t3 JSON_stringify_def)
    then show ?thesis by blast
  qed
qed


text \<open>
  \<^bold>\<open>C2\<close> says that every write of the store goes to \<^verbatim>\<open><key>.json.tmp\<close> first and is
  then renamed over \<^verbatim>\<open><key>.json\<close>. The update path of \<^verbatim>\<open>openConfig\<close> and both savers
  do so (\<open>openConfig_try_staged\<close>, \<open>save_try_staged\<close>), and the header of \<^verbatim>\<open>openConfig\<close>
  documents the operation as atomic; its creation path does not: on an empty file
  system, \<^verbatim>\<open>openConfig('alice-config.json', 'switch-model', 'llama3')\<close> performs exactly
  a read, a \<^verbatim>\<open>mkdir\<close> and one \<^verbatim>\<open>writeFile\<close> on the target path, with no temporary file
  and no rename.
\<close>

theorem openConfig_create_writes_target:
  "trace (snd (openConfig isS arr (js ''/app'')
                 \<lparr>files = Map.empty, denied = no_denial, trace = []\<rparr>
                 (js ''alice-config.json'') (js ''switch-model'') (SStr (js ''llama3''))))
   = [ReadFile (js ''/app/data/alice-config.json''),
      Mkdir (js ''/app/data''),
      WriteFile (js ''/app/data/alice-config.json'')
        (Json (createDefaultConfig isS (js ''switch-model'') (SStr (js ''llama3''))))]"
proof -
  let ?p = "js ''/app/data/alice-config.json''"
  let ?new = "Json (createDefaultConfig isS (js ''switch-model'') (SStr (js ''llama3'')))"
  let ?st0 = "\<lparr>files = Map.empty, denied = no_denial, trace = []\<rparr>"
  let ?st1 = "\<lparr>files = Map.empty, denied = no_denial, trace = [ReadFile ?p]\<rparr>"
  let ?st2 = "\<lparr>files = [js ''/app'' \<mapsto> Dir, js ''/app/data'' \<mapsto> Dir], denied = no_denial,
               trace = [ReadFile ?p, Mkdir (js ''/app/data'')]\<rparr>"
  have d: "dirname ?p = js ''/app/data''"
    by (simp add: dirname_def js_def)
  have r: "readFile ?st0 ?p = (Inl ENOENT, ?st1)"
    by (simp add: fs_defs js_def)
  have t: "openConfig_try arr ?st0 ?p (js ''switch-model'') (SStr (js ''llama3''))
             = (Inl (SystemError ENOENT), ?st1)"
    by (simp add: openConfig_try_def r)
  have m: "mkdir ?st1 (js ''/app/data'') = (Inr (), ?st2)"
    by (simp add: fs_defs js_def)
  have w: "trace (snd (writeFile ?st2 ?p ?new))
             = [ReadFile ?p, Mkdir (js ''/app/data''), WriteFile ?p ?new]
           \<and> fst (writeFile ?st2 ?p ?new) = Inr ()"
    by (simp add: fs_defs js_def)
  show ?thesis
    using w
    by (cases "writeFile ?st2 ?p ?new")
       (simp add: openConfig_def alice_config_path t d m JSON_stringify_def)
qed

text \<open>
  Names at the limit. A sanitized name of 252 letters is a valid name, but its temporary
  sibling has 256 bytes: \<^verbatim>\<open>openConfig\<close> on the existing file throws \<^verbatim>\<open>ENAMETOOLONG\<close>
  and the document stays as it was. A sanitized name of 200 code units \<^verbatim>\<open>U+00E9\<close> has 400
  bytes: reading it fails with \<^verbatim>\<open>ENAMETOOLONG\<close> although no such file exists, and
  \<^verbatim>\<open>getChannelInfo\<close> throws instead of returning \<^verbatim>\<open>null\<close>.
\<close>

lemma utf8_length_Cons_ascii: "c < 0x80 \<Longrightarrow> utf8_length (c # ys) = 1 + utf8_length ys"
  by (cases ys) simp_all

lemma utf8_length_replicate_ascii:
  "c < 0x80 \<Longrightarrow> utf8_length (replicate n c @ ys) = n + utf8_length ys"
  by (induction n) (simp_all add: utf8_length_Cons_ascii)

lemma long_name_sanitized:
  "sanitizeFilename (replicate 252 0x61) = Inr (replicate 252 0x61)"
proof -
  have r: "replicate 252 (0x61::jschar) = 0x61 # replicate 251 0x61"
    by (simp flip: replicate_Suc)
  have "replace_control (replace_separators (remove_nul (replicate 252 0x61)))
          = replicate 252 0x61"
    by (simp add: remove_nul_def replace_separators_def replace_control_def is_control_def)
  moreover have "replace_leading_dots (replicate 252 0x61) = replicate 252 0x61"
    unfolding r by (simp add: replace_leading_dots_def)
  ultimately have "replace_chain (replicate 252 0x61) = replicate 252 0x61"
    by (simp add: replace_chain_def)
  then show ?thesis
    by (simp add: sanitizeFilename_def)
qed

lemma openConfig_long_name:
  assumes st: "st = \<lparr>files = [js ''/app'' \<mapsto> Dir, js ''/app/data'' \<mapsto> Dir,
                              js ''/app/data/'' @ replicate 252 0x61 \<mapsto> File (Json (JObj doc))],
                     denied = no_denial, trace = []\<rparr>"
    and opts: "map_of doc (js ''options'') = Some (JObj opts)"
  shows "fst (openConfig isS arr (js ''/app'') st (replicate 252 0x61) key v)
           = Inl (FailedToUpdateConfig (SystemError ENAMETOOLONG)) \<and>
         fst (readFile (snd (openConfig isS arr (js ''/app'') st (replicate 252 0x61) key v))
                (js ''/app/data/'' @ replicate 252 0x61)) = Inr (Json (JObj doc))"
proof -
  let ?f = "replicate 252 (0x61::jschar)"
  let ?p = "js ''/app/data/'' @ ?f"
  let ?R = "openConfig isS arr (js ''/app'') st ?f key v"
  have path: "getSafeDataPath (js ''/app'') ?f = Inr ?p"
    using long_name_sanitized by (rule getSafeDataPath_app)
  have f: "slash \<notin> set ?f" "?f \<noteq> []" by simp_all
  have d: "components (js ''/app/data'') = [js ''app'', js ''data'']"
    by (simp add: components_def js_def)
  have "components (js ''/app/data'' @ slash # ?f) = components (js ''/app/data'') @ [?f]"
    using f by (rule data_path_components)
  then have cp: "components ?p = [js ''app'', js ''data'', ?f]"
    using d by (simp add: js_def)
  have "components (js ''/app/data'' @ slash # (?f @ js ''.tmp''))
          = components (js ''/app/data'') @ [?f @ js ''.tmp'']"
    using f tmp_slash_free by (intro data_path_components) simp_all
  then have ct: "components (?p @ js ''.tmp'') = [js ''app'', js ''data'', ?f @ js ''.tmp'']"
    using d by (simp add: js_def)
  have lf: "utf8_length ?f = 252"
    using utf8_length_replicate_ascii[of "0x61" 252 "[]"] by simp
  have lt: "utf8_length (?f @ js ''.tmp'') = 256"
    using utf8_length_replicate_ascii[of "0x61" 252 "js ''.tmp''"] by (simp add: js_def)
  have lp: "utf8_length ?p = 262"
    using utf8_length_replicate_ascii[of "0x61" 252 "[]"]
    by (simp add: js_def utf8_length_Cons_ascii)
  have lpt: "utf8_length (?p @ js ''.tmp'') = 266"
    using utf8_length_replicate_ascii[of "0x61" 252 "js ''.tmp''"]
    by (simp add: js_def utf8_length_Cons_ascii)
  have walk: "walk_dirs (files st) [] [js ''app'', js ''data''] = Inr (js ''/app/data'')"
    by (simp add: st child_def js_def NAME_MAX_def)
  have fl: "files st (child (js ''/app/data'') ?f) = Some (File (Json (JObj doc)))"
    by (simp add: st child_def js_def)
  have nd: "denied st = no_denial" by (simp add: st)
  have rd: "fst (readFile st ?p) = Inr (Json (JObj doc))"
    using readFile_Inr_iff[of ?p "[js ''app'', js ''data'']" ?f st "Json (JObj doc)"]
      walk fl
    by (simp add: cp lf lp nd no_denial_def NAME_MAX_def PATH_MAX_def)
  obtain st1 where r: "readFile st ?p = (Inr (Json (JObj doc)), st1)"
    using rd by (cases "readFile st ?p") auto
  have st1: "files st1 = files st" "denied st1 = denied st"
    using readFile_files[of st ?p] readFile_denied[of st ?p] by (simp_all add: r)
  have ct': "components (js ''/app/data/'' @ ?f @ js ''.tmp'')
               = [js ''app'', js ''data'', ?f @ js ''.tmp'']"
    using ct by simp
  have lpt': "utf8_length (js ''/app/data/'' @ ?f @ js ''.tmp'') = 266"
    using lpt by simp
  have walk1: "walk_dirs (files st1) [] [js ''app'', js ''data''] = Inr (js ''/app/data'')"
    using walk by (simp only: st1)
  have w: "fst (writeFile st1 (?p @ js ''.tmp'') x) = Inl ENAMETOOLONG" for x
    by (simp add: writeFile_def locate_def parent_dir_def entry_def ct' lt lpt' walk1
        st1(2) nd no_denial_def NAME_MAX_def PATH_MAX_def Let_def del: walk_dirs.simps)
  have fail: "fst ?R = Inl (FailedToUpdateConfig (SystemError ENAMETOOLONG))"
  proof -
    let ?tmp = "js ''/app/data/'' @ ?f @ js ''.tmp''"
    obtain doc' where u: "update_options arr (JObj doc) key v = Inr (JObj doc')"
      by (simp add: update_options_def opts assign_member_def)
    obtain y st2 where W: "writeFile st1 ?tmp (Json (JObj doc')) = (y, st2)"
      by (cases "writeFile st1 ?tmp (Json (JObj doc'))")
    have y: "y = Inl ENAMETOOLONG" using w[of "Json (JObj doc')"] by (simp add: W)
    show ?thesis
      by (simp add: openConfig_def path openConfig_try_def r JSON_parse_def JSON_stringify_def
          u W y)
  qed
  then have "fst ?R \<noteq> Inr ()" by simp
  moreover have "fst (readFile (snd ?R) ?p) = Inr (Json (JObj doc))"
    using openConfig_update_outcomes[OF isAbsolute_app path rd opts _ _ refl, of isS arr key v]
      calculation nd
    by (auto simp: no_denial_def)
  ultimately show ?thesis using fail by simp
qed


lemma utf8_length_Cons_two:
  "\<not> c < 0x80 \<Longrightarrow> c < 0x800 \<Longrightarrow> utf8_length (c # ys) = 2 + utf8_length ys"
  by (cases ys) simp_all

lemma utf8_length_replicate_two:
  "\<not> c < 0x80 \<Longrightarrow> c < 0x800 \<Longrightarrow> utf8_length (replicate n c @ ys) = 2 * n + utf8_length ys"
  by (induction n) (simp_all add: utf8_length_Cons_two)

lemma accented_name_sanitized:
  "sanitizeFilename (replicate 200 0xE9) = Inr (replicate 200 0xE9)"
proof -
  have r: "replicate 200 (0xE9::jschar) = 0xE9 # replicate 199 0xE9"
    by (simp flip: replicate_Suc)
  have "replace_control (replace_separators (remove_nul (replicate 200 0xE9)))
          = replicate 200 0xE9"
    by (simp add: remove_nul_def replace_separators_def replace_control_def is_control_def)
  moreover have "replace_leading_dots (replicate 200 0xE9) = replicate 200 0xE9"
    unfolding r by (simp add: replace_leading_dots_def)
  ultimately have "replace_chain (replicate 200 0xE9) = replicate 200 0xE9"
    by (simp add: replace_chain_def)
  then show ?thesis
    by (simp add: sanitizeFilename_def)
qed

lemma getChannelInfo_long_name:
  "fst (getChannelInfo (js ''/app'')
          \<lparr>files = [js ''/app'' \<mapsto> Dir, js ''/app/data'' \<mapsto> Dir],
            denied = no_denial, trace = []\<rparr>
          (replicate 200 0xE9)) = Inl (FailedToRead (SystemError ENAMETOOLONG))"
proof -
  let ?f = "replicate 200 (0xE9::jschar)"
  let ?p = "js ''/app/data/'' @ ?f"
  let ?st = "\<lparr>files = [js ''/app'' \<mapsto> Dir, js ''/app/data'' \<mapsto> Dir],
              denied = no_denial, trace = []\<rparr>"
  have path: "getSafeDataPath (js ''/app'') ?f = Inr ?p"
    using accented_name_sanitized by (rule getSafeDataPath_app)
  have f: "slash \<notin> set ?f" "?f \<noteq> []" by simp_all
  have d: "components (js ''/app/data'') = [js ''app'', js ''data'']"
    by (simp add: components_def js_def)
  have "components (js ''/app/data'' @ slash # ?f) = components (js ''/app/data'') @ [?f]"
    using f by (rule data_path_components)
  then have cp: "components ?p = [js ''app'', js ''data'', ?f]"
    using d by (simp add: js_def)
  have lf: "utf8_length ?f = 400"
    using utf8_length_replicate_two[of "0xE9" 200 "[]"] by simp
  have lp: "utf8_length ?p = 410"
    using utf8_length_replicate_two[of "0xE9" 200 "[]"]
    by (simp add: js_def utf8_length_Cons_ascii)
  have walk: "walk_dirs (files ?st) [] [js ''app'', js ''data''] = Inr (js ''/app/data'')"
    by (simp add: child_def js_def NAME_MAX_def)
  have rd: "readFile ?st ?p = (Inl ENAMETOOLONG, ?st\<lparr>trace := [ReadFile ?p]\<rparr>)"
    using walk
    by (simp add: readFile_def locate_def parent_dir_def entry_def cp lf lp no_denial_def
        NAME_MAX_def PATH_MAX_def del: walk_dirs.simps)
  show ?thesis
    by (simp add: getChannelInfo_def path read_channel_try_def rd catch_read_def)
qed

end
